theory Spec2Isabelle
  imports Main "HOL-Library.Word" "HOL-Library.AList"
begin

section \<open>Python strings\<close>

text \<open>
  A Python \<open>str\<close> is a sequence of Unicode code points, so a string is a list of
  natural numbers. String constants of the source are written \<open>u ''...''\<close>: the ASCII
  characters of the literal, each as its code point.
\<close>

type_synonym ustr = "nat list"

definition u :: "string \<Rightarrow> ustr" where
  "u s = map of_char s"

text \<open>\<open>s.startswith(p)\<close>.\<close>

fun startswith :: "ustr \<Rightarrow> ustr \<Rightarrow> bool" where
  "startswith s [] = True"
| "startswith [] (p # ps) = False"
| "startswith (x # xs) (p # ps) = (x = p \<and> startswith xs ps)"

text \<open>\<open>s.lstrip(chars)\<close>: every leading character that occurs in \<open>chars\<close> is removed.\<close>

definition lstrip_chars :: "ustr \<Rightarrow> ustr \<Rightarrow> ustr" where
  "lstrip_chars chars s = dropWhile (\<lambda>c. c \<in> set chars) s"

text \<open>\<open>os.path.basename\<close> (POSIX): what follows the last slash.\<close>

definition basename :: "ustr \<Rightarrow> ustr" where
  "basename p = rev (takeWhile (\<lambda>c. c \<noteq> of_char CHR ''/'') (rev p))"

section \<open>Paths and the file system\<close>

text \<open>
  A \<open>pathlib\<close> POSIX path is its root (\<open>''''\<close>, \<open>''/''\<close> or \<open>''//''\<close>) and its
  components; parsing a string drops empty components and \<open>.\<close> components.
  \<open>p / s\<close> is \<open>joinpath\<close>: an absolute right operand replaces the left one.
\<close>

datatype path = Path (root: ustr) (parts: "ustr list")

fun split_on :: "nat \<Rightarrow> ustr \<Rightarrow> ustr list" where
  "split_on c [] = [[]]"
| "split_on c (x # xs) =
     (if x = c then [] # split_on c xs
      else (case split_on c xs of [] \<Rightarrow> [[x]] | p # ps \<Rightarrow> (x # p) # ps))"

definition parse_root :: "ustr \<Rightarrow> ustr" where
  "parse_root s =
     (if startswith s (u ''//'') \<and> \<not> startswith s (u ''///'') then u ''//''
      else if startswith s (u ''/'') then u ''/''
      else [])"

definition parse_parts :: "ustr \<Rightarrow> ustr list" where
  "parse_parts s = filter (\<lambda>x. x \<noteq> [] \<and> x \<noteq> u ''.'') (split_on (of_char CHR ''/'') s)"

definition joinpath :: "path \<Rightarrow> ustr \<Rightarrow> path" where
  "joinpath p s =
     (if parse_root s \<noteq> [] then Path (parse_root s) (parse_parts s)
      else Path (root p) (parts p @ parse_parts s))"

definition parent :: "path \<Rightarrow> path" where
  "parent p = Path (root p) (butlast (parts p))"

text \<open>
  The file system, as far as the converter looks at it: a map from a path to what is
  there, a file with its content or a directory; a file or directory that several
  paths lead to is there under each of them. Permissions, links and the attributes
  of a file are left out. \<open>p.exists()\<close> holds of a file and of a directory.

  \<open>shutil.copy2(src, dst)\<close>, for a \<open>dst\<close> at which nothing exists, opens \<open>src\<close> for
  reading and then \<open>dst\<close> for writing, and stores the content of \<open>src\<close> at \<open>dst\<close>. It
  raises \<open>IsADirectoryError\<close> when \<open>src\<close> is a directory, \<open>FileNotFoundError\<close> when
  nothing is at \<open>src\<close> or at the parent of \<open>dst\<close>, and \<open>NotADirectoryError\<close> when the
  parent of \<open>dst\<close> is a file.
\<close>

type_synonym bytes = "8 word list"

datatype entry = File bytes | Directory

type_synonym filesystem = "path \<rightharpoonup> entry"

datatype io_error = IsADirectoryError | FileNotFoundError | NotADirectoryError

definition exists :: "filesystem \<Rightarrow> path \<Rightarrow> bool" where
  "exists fs p = (fs p \<noteq> None)"

definition copy2 :: "path \<Rightarrow> path \<Rightarrow> filesystem \<Rightarrow> io_error + filesystem" where
  "copy2 src dst fs =
     (case fs src of
        None \<Rightarrow> Inl FileNotFoundError
      | Some Directory \<Rightarrow> Inl IsADirectoryError
      | Some (File c) \<Rightarrow>
          (case fs (parent dst) of
             None \<Rightarrow> Inl FileNotFoundError
           | Some (File d) \<Rightarrow> Inl NotADirectoryError
           | Some Directory \<Rightarrow> Inr (fs(dst \<mapsto> File c))))"

section \<open>The converter object\<close>

text \<open>
  The fields of \<open>WebpageToMarkdownConverter\<close>, and with them the file system the
  methods read and write (\<open>disk\<close>): a method takes the state and returns the new one,
  or the exception that it raises.
\<close>

record converter =
  html_file_path :: path
  base_dir :: path
  assets_folder :: "path option"
  output_file :: path
  images_dir :: path
  processed_images :: "(ustr \<times> ustr) list"
  disk :: filesystem

section \<open>\<open>_process_image\<close>\<close>

text \<open>
  The loop over \<open>potential_paths\<close>: at the first path that exists the image is copied
  to \<open>images_dir / img_filename\<close> unless something is there already, and
  \<open>images/<img_filename>\<close> is returned; an exception of the copy leaves the loop.
  \<open>Inr None\<close>: the loop ran to its end.
\<close>

fun try_paths :: "converter \<Rightarrow> ustr \<Rightarrow> path list \<Rightarrow> io_error + (converter \<times> ustr) option" where
  "try_paths self img_filename [] = Inr None"
| "try_paths self img_filename (img_path # rest) =
     (if exists (disk self) img_path then
        (let dest_path = joinpath (images_dir self) img_filename in
         if \<not> exists (disk self) dest_path then
           (case copy2 img_path dest_path (disk self) of
              Inl e \<Rightarrow> Inl e
            | Inr fs \<Rightarrow> Inr (Some (self\<lparr>disk := fs\<rparr>, u ''images/'' @ img_filename)))
         else Inr (Some (self, u ''images/'' @ img_filename)))
      else try_paths self img_filename rest)"

definition potential_paths :: "path \<Rightarrow> path \<Rightarrow> ustr \<Rightarrow> path list" where
  "potential_paths af bd img_src =
     [joinpath af (basename img_src),
      joinpath af (lstrip_chars (u ''./'') img_src),
      joinpath bd (lstrip_chars (u ''./'') img_src)]"

definition process_image :: "converter \<Rightarrow> ustr \<Rightarrow> io_error + converter \<times> ustr" where
  "process_image self img_src =
     (if img_src = [] then Inr (self, [])
      else if startswith img_src (u ''http://'') \<or> startswith img_src (u ''https://'')
        then Inr (self, img_src)
      else if startswith img_src (u ''data:'') then Inr (self, [])
      else
        (case assets_folder self of
           None \<Rightarrow> Inr (self, img_src)
         | Some af \<Rightarrow>
             (case try_paths self (basename img_src)
                     (potential_paths af (base_dir self) img_src) of
                Inl e \<Rightarrow> Inl e
              | Inr (Some r) \<Rightarrow> Inr r
              | Inr None \<Rightarrow> Inr (self, img_src))))"

section \<open>The document tree\<close>

text \<open>
  The parsed tree: a tag has a name, its attributes (a dictionary, in insertion
  order) and its children; the leaves are strings. The parser gives a string inside
  an \<open>rt\<close>, \<open>rp\<close>, \<open>script\<close>, \<open>style\<close> or \<open>template\<close> element a class of its own
  (\<open>RubyTextString\<close>, \<open>RubyParenthesisString\<close>, \<open>Script\<close>, \<open>Stylesheet\<close>,
  \<open>TemplateString\<close>: \<open>ContainerString\<close> here); a comment, a declaration, a doctype
  or a processing instruction has its class too (\<open>Comment\<close> here); every other
  string is a plain \<open>NavigableString\<close> or a \<open>CData\<close> (\<open>NavigableString\<close> here). The
  soup itself is a tag named \<open>[document]\<close>.
\<close>

type_synonym attrs = "(ustr \<times> ustr) list"

datatype node =
    Tag (name: ustr) (attrs: attrs) (contents: "node list")
  | NavigableString ustr
  | Comment ustr
  | ContainerString ustr

text \<open>\<open>tag.get(key)\<close> and \<open>tag[key] = value\<close>.\<close>

definition get :: "attrs \<Rightarrow> ustr \<Rightarrow> ustr option" where
  "get a k = map_of a k"

definition setitem :: "attrs \<Rightarrow> ustr \<Rightarrow> ustr \<Rightarrow> attrs" where
  "setitem a k v = AList.update k v a"

text \<open>The truth value of what \<open>get\<close> returns: neither \<open>None\<close> nor the empty string.\<close>

definition truthy :: "ustr option \<Rightarrow> bool" where
  "truthy v = (case v of None \<Rightarrow> False | Some s \<Rightarrow> s \<noteq> [])"

text \<open>The descendants of a node in document order, and \<open>find_all(name)\<close>.\<close>

fun descendants :: "node \<Rightarrow> node list" where
  "descendants (Tag n a cs) = concat (map (\<lambda>c. c # descendants c) cs)"
| "descendants (NavigableString s) = []"
| "descendants (Comment s) = []"
| "descendants (ContainerString s) = []"

fun is_named :: "ustr \<Rightarrow> node \<Rightarrow> bool" where
  "is_named nm (Tag n a cs) = (n = nm)"
| "is_named nm (NavigableString s) = False"
| "is_named nm (Comment s) = False"
| "is_named nm (ContainerString s) = False"

definition find_all :: "node \<Rightarrow> ustr \<Rightarrow> node list" where
  "find_all soup nm = filter (is_named nm) (descendants soup)"

definition find :: "node \<Rightarrow> ustr \<Rightarrow> node option" where
  "find soup nm = (case find_all soup nm of [] \<Rightarrow> None | t # ts \<Rightarrow> Some t)"

section \<open>The image loop of \<open>convert\<close>\<close>

text \<open>
  The body of \<open>for img in soup.find_all('img')\<close>, on the attributes of one
  \<open>img\<close> tag.
\<close>

definition process_img_tag :: "converter \<Rightarrow> attrs \<Rightarrow> io_error + converter \<times> attrs" where
  "process_img_tag self img =
     (let src = (case get img (u ''src'') of None \<Rightarrow> [] | Some v \<Rightarrow> v) in
      if src \<noteq> [] then
        (case process_image self src of
           Inl e \<Rightarrow> Inl e
         | Inr (self', new_src) \<Rightarrow>
             (let img1 = (if new_src \<noteq> [] then setitem img (u ''src'') new_src else img);
                  img2 = (if \<not> truthy (get img1 (u ''alt''))
                          then setitem img1 (u ''alt'') (u ''Image'') else img1)
              in Inr (self', img2)))
      else Inr (self, img))"

text \<open>
  The loop mutates the tags where they are in the tree and visits them in document
  order: a traversal of the tree that threads the converter's state. An exception
  ends it, and with it the run.
\<close>

fun process_images :: "converter \<Rightarrow> node \<Rightarrow> io_error + converter \<times> node"
  and process_images_list :: "converter \<Rightarrow> node list \<Rightarrow> io_error + converter \<times> node list" where
  "process_images self (Tag n a cs) =
     (case (if n = u ''img'' then process_img_tag self a else Inr (self, a)) of
        Inl e \<Rightarrow> Inl e
      | Inr (self1, a') \<Rightarrow>
          (case process_images_list self1 cs of
             Inl e \<Rightarrow> Inl e
           | Inr (self2, cs') \<Rightarrow> Inr (self2, Tag n a' cs')))"
| "process_images self (NavigableString s) = Inr (self, NavigableString s)"
| "process_images self (Comment s) = Inr (self, Comment s)"
| "process_images self (ContainerString s) = Inr (self, ContainerString s)"
| "process_images_list self [] = Inr (self, [])"
| "process_images_list self (c # cs) =
     (case process_images self c of
        Inl e \<Rightarrow> Inl e
      | Inr (self1, c') \<Rightarrow>
          (case process_images_list self1 cs of
             Inl e \<Rightarrow> Inl e
           | Inr (self2, cs') \<Rightarrow> Inr (self2, c' # cs')))"

text \<open>The same loop on the list that \<open>find_all('img')\<close> returns.\<close>

fun image_loop :: "converter \<Rightarrow> attrs list \<Rightarrow> io_error + converter \<times> attrs list" where
  "image_loop self [] = Inr (self, [])"
| "image_loop self (img # imgs) =
     (case process_img_tag self img of
        Inl e \<Rightarrow> Inl e
      | Inr (self1, img') \<Rightarrow>
          (case image_loop self1 imgs of
             Inl e \<Rightarrow> Inl e
           | Inr (self2, imgs') \<Rightarrow> Inr (self2, img' # imgs')))"

text \<open>
  \<open>soup.find_all('img')\<close> yields the descendants of the soup, so the loop of
  \<open>convert\<close> runs over the children of the root.
\<close>

definition image_stage :: "converter \<Rightarrow> node \<Rightarrow> io_error + converter \<times> node" where
  "image_stage self soup =
     (case soup of
        Tag n a cs \<Rightarrow>
          (case process_images_list self cs of
             Inl e \<Rightarrow> Inl e
           | Inr (self', cs') \<Rightarrow> Inr (self', Tag n a cs'))
      | NavigableString s \<Rightarrow> Inr (self, soup)
      | Comment s \<Rightarrow> Inr (self, soup)
      | ContainerString s \<Rightarrow> Inr (self, soup))"

section \<open>Character classes\<close>

text \<open>
  The characters for which \<open>str.isspace\<close> holds, which are those that \<open>\s\<close> matches
  in a \<open>str\<close> pattern and that \<open>str.strip()\<close> removes.
\<close>

definition is_space :: "nat \<Rightarrow> bool" where
  "is_space c =
     ((0x09 \<le> c \<and> c \<le> 0x0D) \<or> (0x1C \<le> c \<and> c \<le> 0x20) \<or> c = 0x85 \<or> c = 0xA0 \<or>
      c = 0x1680 \<or> (0x2000 \<le> c \<and> c \<le> 0x200A) \<or> c = 0x2028 \<or> c = 0x2029 \<or>
      c = 0x202F \<or> c = 0x205F \<or> c = 0x3000)"

text \<open>
  \<open>\d\<close> matches the decimal digits of Unicode (category Nd). They come in runs of ten,
  from a zero to a nine; \<open>decimal_zeros\<close> lists the zeros (Unicode 14.0).
\<close>

definition decimal_zeros :: "nat list" where
  "decimal_zeros =
     [48, 1632, 1776, 1984, 2406, 2534, 2662, 2790, 2918, 3046, 3174, 3302, 3430, 3558, 3664,
      3792, 3872, 4160, 4240, 6112, 6160, 6470, 6608, 6784, 6800, 6992, 7088, 7232, 7248,
      42528, 43216, 43264, 43472, 43504, 43600, 44016, 65296, 66720, 68912, 69734, 69872,
      69942, 70096, 70384, 70736, 70864, 71248, 71360, 71472, 71904, 72016, 72784, 73040,
      73120, 92768, 92864, 93008, 120782, 120792, 120802, 120812, 120822, 123200, 123632,
      125264, 130032]"

definition is_decimal :: "nat \<Rightarrow> bool" where
  "is_decimal c = list_ex (\<lambda>z. z \<le> c \<and> c < z + 10) decimal_zeros"

section \<open>Regular expressions\<close>

text \<open>
  The patterns of the source, as syntax trees: a literal character, a character
  class, a sequence, an alternative, a greedy repetition \<open>{lo,hi}\<close> (\<open>hi = None\<close> for
  no upper bound) and a numbered group.
\<close>

datatype re =
    Lit nat
  | Cls "nat \<Rightarrow> bool"
  | Seq re re
  | Alt re re
  | Rep nat "nat option" re
  | Grp nat re

text \<open>
  \<open>matches r c s\<close> lists the ways in which \<open>r\<close> matches a prefix of \<open>s\<close>, each as the
  groups captured and the rest of \<open>s\<close>, in the order in which a backtracking matcher
  tries them: in a sequence the alternatives of the first part are followed through one
  after the other, the left alternative comes before the right one, and a greedy
  repetition tries one more round before it stops. The head of the list is the match
  that \<open>re\<close> finds at this position. A round of a repetition has to consume a
  character.
\<close>

type_synonym caps = "(nat \<times> ustr) list"

fun then_match :: "(caps \<times> ustr) list \<Rightarrow> (caps \<Rightarrow> ustr \<Rightarrow> (caps \<times> ustr) list)
    \<Rightarrow> (caps \<times> ustr) list" where
  "then_match [] m = []"
| "then_match ((c, s) # ms) m = m c s @ then_match ms m"

fun close_group :: "nat \<Rightarrow> ustr \<Rightarrow> (caps \<times> ustr) list \<Rightarrow> (caps \<times> ustr) list" where
  "close_group n s [] = []"
| "close_group n s ((c', s') # ms) =
     ((n, take (length s - length s') s) # c', s') # close_group n s ms"

fun rep :: "(caps \<Rightarrow> ustr \<Rightarrow> (caps \<times> ustr) list) \<Rightarrow> nat \<Rightarrow> nat \<Rightarrow> caps \<Rightarrow> ustr
    \<Rightarrow> (caps \<times> ustr) list"
  and rep_more :: "(caps \<Rightarrow> ustr \<Rightarrow> (caps \<times> ustr) list) \<Rightarrow> nat \<Rightarrow> nat \<Rightarrow> nat
    \<Rightarrow> (caps \<times> ustr) list \<Rightarrow> (caps \<times> ustr) list" where
  "rep m lo hi c [] = (if lo = 0 then [(c, [])] else [])"
| "rep m lo 0 c (x # xs) = (if lo = 0 then [(c, x # xs)] else [])"
| "rep m lo (Suc hi) c (x # xs) =
     rep_more m (lo - 1) hi (length xs) (m c (x # xs)) @ (if lo = 0 then [(c, x # xs)] else [])"
| "rep_more m lo hi n [] = []"
| "rep_more m lo hi n ((c', s') # ms) =
     (if length s' \<le> n then rep m lo hi c' s' else []) @ rep_more m lo hi n ms"

primrec matches :: "re \<Rightarrow> caps \<Rightarrow> ustr \<Rightarrow> (caps \<times> ustr) list" where
  "matches (Lit a) c s = (case s of [] \<Rightarrow> [] | x # r \<Rightarrow> if x = a then [(c, r)] else [])"
| "matches (Cls P) c s = (case s of [] \<Rightarrow> [] | x # r \<Rightarrow> if P x then [(c, r)] else [])"
| "matches (Seq a b) c s = then_match (matches a c s) (matches b)"
| "matches (Alt a b) c s = matches a c s @ matches b c s"
| "matches (Rep lo hi a) c s =
     rep (matches a) lo (case hi of None \<Rightarrow> length s | Some h \<Rightarrow> h) c s"
| "matches (Grp n a) c s = close_group n s (matches a c s)"

text \<open>
  A replacement template is a sequence of literal text and group references
  (\<open>\1\<close> is \<open>G 1\<close>); a group that took no part in the match expands to nothing.
\<close>

datatype tpl = T ustr | G nat

fun expand :: "tpl list \<Rightarrow> caps \<Rightarrow> ustr" where
  "expand [] c = []"
| "expand (T s # ts) c = s @ expand ts c"
| "expand (G n # ts) c = (case map_of c n of None \<Rightarrow> [] | Some g \<Rightarrow> g) @ expand ts c"

text \<open>
  \<open>re.sub(pattern, repl, s)\<close>: the string is scanned from the left; where the pattern
  matches, the match is replaced and the scan goes on behind it, elsewhere one
  character is copied. No pattern of the source matches the empty string, and a match
  that consumes nothing is treated as no match.
\<close>

definition sub_step :: "re \<Rightarrow> tpl list \<Rightarrow> nat \<Rightarrow> ustr \<Rightarrow> ustr \<times> ustr" where
  "sub_step r t x xs =
     (case matches r [] (x # xs) of
        [] \<Rightarrow> ([x], xs)
      | (c, s') # ms \<Rightarrow> if length s' \<le> length xs then (expand t c, s') else ([x], xs))"

function sub :: "re \<Rightarrow> tpl list \<Rightarrow> ustr \<Rightarrow> ustr" where
  "sub r t [] = []"
| "sub r t (x # xs) = (case sub_step r t x xs of (out, rest) \<Rightarrow> out @ sub r t rest)"
  by pat_completeness auto
termination
  by (relation "measure (\<lambda>(r, t, s). length s)")
     (auto simp: sub_step_def split: list.splits if_splits)

section \<open>String methods\<close>

text \<open>\<open>s.strip()\<close>.\<close>

definition strip :: "ustr \<Rightarrow> ustr" where
  "strip s = rev (dropWhile is_space (rev (dropWhile is_space s)))"

text \<open>
  \<open>s.replace(old, new)\<close>: the occurrences of \<open>old\<close> are replaced from the left, without
  overlap; an empty \<open>old\<close> puts \<open>new\<close> around every character.
\<close>

function replace_from :: "ustr \<Rightarrow> ustr \<Rightarrow> ustr \<Rightarrow> ustr" where
  "replace_from old new [] = []"
| "replace_from old new (x # xs) =
     (case (if old \<noteq> [] \<and> startswith (x # xs) old
            then (new, drop (length old) (x # xs)) else ([x], xs)) of
        (out, rest) \<Rightarrow> out @ replace_from old new rest)"
  by pat_completeness auto
termination
  by (relation "measure (\<lambda>(old, new, s). length s)") (auto split: if_splits)

definition replace :: "ustr \<Rightarrow> ustr \<Rightarrow> ustr \<Rightarrow> ustr" where
  "replace old new s =
     (if old = [] then new @ concat (map (\<lambda>c. c # new) s) else replace_from old new s)"

text \<open>\<open>old in s\<close>: the string \<open>old\<close> occurs in \<open>s\<close>.\<close>

fun occurs :: "ustr \<Rightarrow> ustr \<Rightarrow> bool" where
  "occurs old [] = (old = [])"
| "occurs old (x # xs) = (startswith (x # xs) old \<or> occurs old xs)"

section \<open>\<open>_clean_text\<close>\<close>

definition clean_text :: "ustr \<Rightarrow> ustr" where
  "clean_text t0 =
     (if t0 = [] then []
      else
        (let t1 = sub (Rep 1 None (Cls is_space)) [T (u '' '')] t0;
             t2 = strip t1;
             t3 = replace (u ''&nbsp;'') (u '' '') t2;
             t4 = replace (u ''&amp;'') (u ''&'') t3;
             t5 = replace (u ''&lt;'') (u ''<'') t4;
             t6 = replace (u ''&gt;'') (u ''>'') t5;
             t7 = replace (u ''&quot;'') (u ''\"'') t6
         in t7))"


section \<open>\<open>_fix_markdown_formatting\<close>\<close>

text \<open>The substitutions of the function, one by one, each with its pattern.\<close>

text \<open>\<^verbatim>\<open>re.sub(r'\n{3,}', '\n\n', markdown_content)\<close>\<close>

definition collapse_newlines :: "ustr \<Rightarrow> ustr" where
  "collapse_newlines s =
     sub (Rep 3 None (Lit (of_char CHR ''\<newline>''))) [T (u ''\<newline>\<newline>'')] s"

text \<open>\<^verbatim>\<open>re.sub(r'\n(#{1,6}\s)', r'\n\n\1', markdown_content)\<close>\<close>

definition heading_before :: "ustr \<Rightarrow> ustr" where
  "heading_before s =
     sub (Seq (Lit (of_char CHR ''\<newline>''))
            (Grp 1 (Seq (Rep 1 (Some 6) (Lit (of_char CHR ''#''))) (Cls is_space))))
       [T (u ''\<newline>\<newline>''), G 1] s"

text \<open>\<^verbatim>\<open>re.sub(r'(#{1,6}.*)\n([^\n#])', r'\1\n\n\2', markdown_content)\<close>\<close>

definition heading_after :: "ustr \<Rightarrow> ustr" where
  "heading_after s =
     sub (Seq (Grp 1 (Seq (Rep 1 (Some 6) (Lit (of_char CHR ''#'')))
                          (Rep 0 None (Cls (\<lambda>c. c \<noteq> of_char CHR ''\<newline>'')))))
            (Seq (Lit (of_char CHR ''\<newline>''))
               (Grp 2 (Cls (\<lambda>c. c \<noteq> of_char CHR ''\<newline>'' \<and> c \<noteq> of_char CHR ''#'')))))
       [G 1, T (u ''\<newline>\<newline>''), G 2] s"

text \<open>\<^verbatim>\<open>re.sub(r'\n(\*|\+|-|\d+\.)\s', r'\n\n\1 ', markdown_content)\<close>\<close>

definition list_items :: "ustr \<Rightarrow> ustr" where
  "list_items s =
     sub (Seq (Lit (of_char CHR ''\<newline>''))
            (Seq (Grp 1 (Alt (Lit (of_char CHR ''*''))
                        (Alt (Lit (of_char CHR ''+''))
                        (Alt (Lit (of_char CHR ''-''))
                             (Seq (Rep 1 None (Cls is_decimal)) (Lit (of_char CHR ''.'')))))))
                 (Cls is_space)))
       [T (u ''\<newline>\<newline>''), G 1, T (u '' '')] s"

text \<open>\<^verbatim>\<open>re.sub(r'\n(>)', r'\n\n\1', markdown_content)\<close>\<close>

definition quotes :: "ustr \<Rightarrow> ustr" where
  "quotes s =
     sub (Seq (Lit (of_char CHR ''\<newline>'')) (Grp 1 (Lit (of_char CHR ''>''))))
       [T (u ''\<newline>\<newline>''), G 1] s"

text \<open>\<^verbatim>\<open>re.sub(r'[ \t]+', ' ', markdown_content)\<close>\<close>

definition collapse_spaces :: "ustr \<Rightarrow> ustr" where
  "collapse_spaces s =
     sub (Rep 1 None (Cls (\<lambda>c. c = of_char CHR '' '' \<or> c = 0x09))) [T (u '' '')] s"

definition fix_markdown_formatting :: "ustr \<Rightarrow> ustr" where
  "fix_markdown_formatting markdown_content =
     (let m1 = collapse_newlines markdown_content;
          m2 = heading_before m1;
          m3 = heading_after m2;
          m4 = list_items m3;
          m5 = quotes m4;
          m6 = collapse_spaces m5;
          m7 = strip m6
      in m7)"

section \<open>\<open>_extract_metadata\<close>\<close>

text \<open>
  \<open>tag.get_text()\<close>, for a tag that is no string container itself, as \<open>title\<close>: the
  text of the plain strings below the tag. Comments are left out, and so are the
  strings of the \<open>rt\<close>, \<open>rp\<close>, \<open>style\<close>, \<open>script\<close> and \<open>template\<close> elements below
  it, which have classes of their own.
\<close>

definition string_containers :: "ustr list" where
  "string_containers = [u ''rt'', u ''rp'', u ''style'', u ''script'', u ''template'']"

fun plain_text :: "node \<Rightarrow> ustr" where
  "plain_text (Tag n a cs) =
     (if n \<in> set string_containers then [] else concat (map plain_text cs))"
| "plain_text (NavigableString s) = s"
| "plain_text (Comment s) = []"
| "plain_text (ContainerString s) = []"

fun get_text :: "node \<Rightarrow> ustr" where
  "get_text (Tag n a cs) = concat (map plain_text cs)"
| "get_text (NavigableString s) = s"
| "get_text (Comment s) = []"
| "get_text (ContainerString s) = []"

type_synonym metadata = "(ustr \<times> ustr) list"

text \<open>
  The \<open>if\<close>/\<open>elif\<close> chain of the loop over the \<open>meta\<close> tags: the key under which
  the content of a tag with this name is stored, if any.
\<close>

definition meta_key :: "ustr \<Rightarrow> ustr option" where
  "meta_key n =
     (if n \<in> set [u ''description'', u ''og:description''] then Some (u ''description'')
      else if n \<in> set [u ''author'', u ''og:author''] then Some (u ''author'')
      else if n \<in> set [u ''keywords''] then Some (u ''keywords'')
      else if n \<in> set [u ''og:title''] then Some (u ''og_title'')
      else if n \<in> set [u ''og:url''] then Some (u ''url'')
      else if n \<in> set [u ''article:published_time'', u ''pubdate''] then Some (u ''published'')
      else None)"

text \<open>The body of the loop.\<close>

definition meta_step :: "node \<Rightarrow> metadata \<Rightarrow> metadata" where
  "meta_step meta metadata =
     (let nm = (if truthy (get (attrs meta) (u ''name'')) then get (attrs meta) (u ''name'')
                else get (attrs meta) (u ''property''));
          content = get (attrs meta) (u ''content'')
      in case (nm, content) of
           (Some n, Some c) \<Rightarrow>
             if n \<noteq> [] \<and> c \<noteq> [] then
               (case meta_key n of
                  Some k \<Rightarrow> setitem metadata k c
                | None \<Rightarrow> metadata)
             else metadata
         | _ \<Rightarrow> metadata)"

definition extract_metadata :: "node \<Rightarrow> metadata" where
  "extract_metadata soup =
     (let metadata = [];
          metadata = (case find soup (u ''title'') of
                        None \<Rightarrow> metadata
                      | Some title_tag \<Rightarrow>
                          setitem metadata (u ''title'') (clean_text (get_text title_tag)))
      in fold meta_step (find_all soup (u ''meta'')) metadata)"

section \<open>\<open>_extract_main_content\<close>\<close>

text \<open>
  The selectors that the source uses: a tag name, a class (\<open>.c\<close>), an attribute with
  a given value (\<open>[k="v"]\<close>) and an attribute whose value contains a string
  (\<open>[k*="v"]\<close>).
\<close>

datatype selector =
    ByTag ustr
  | ByClass ustr
  | AttrEquals ustr ustr
  | AttrContains ustr ustr

text \<open>
  The parser keeps the value of \<open>class\<close> as the list of its whitespace-separated
  tokens; a selector on the attribute \<open>class\<close> compares with the tokens joined by
  single spaces.
\<close>

function tokens :: "ustr \<Rightarrow> ustr list" where
  "tokens [] = []"
| "tokens (x # xs) =
     (if is_space x then tokens xs
      else (x # takeWhile (\<lambda>c. \<not> is_space c) xs) # tokens (dropWhile (\<lambda>c. \<not> is_space c) xs))"
  by pat_completeness auto
termination
  by (relation "measure length") (auto simp: length_dropWhile_le le_imp_less_Suc)

fun join :: "ustr \<Rightarrow> ustr list \<Rightarrow> ustr" where
  "join sep [] = []"
| "join sep [x] = x"
| "join sep (x # y # ys) = x @ sep @ join sep (y # ys)"

definition class_list :: "attrs \<Rightarrow> ustr list" where
  "class_list a = (case get a (u ''class'') of None \<Rightarrow> [] | Some v \<Rightarrow> tokens v)"

definition attr_text :: "attrs \<Rightarrow> ustr \<Rightarrow> ustr option" where
  "attr_text a k =
     (if k = u ''class'' then map_option (\<lambda>v. join (u '' '') (tokens v)) (get a k) else get a k)"

fun selects :: "selector \<Rightarrow> node \<Rightarrow> bool" where
  "selects (ByTag n) (Tag nm a cs) = (nm = n)"
| "selects (ByClass c) (Tag nm a cs) = (c \<in> set (class_list a))"
| "selects (AttrEquals k v) (Tag nm a cs) = (attr_text a k = Some v)"
| "selects (AttrContains k v) (Tag nm a cs) =
     (case attr_text a k of None \<Rightarrow> False | Some x \<Rightarrow> v \<noteq> [] \<and> occurs v x)"
| "selects sel (NavigableString s) = False"
| "selects sel (Comment s) = False"
| "selects sel (ContainerString s) = False"

text \<open>
  \<open>soup.select(sel)\<close>: the descendants that the selector matches, in document order;
  \<open>soup.select_one(sel)\<close>: the first of them.
\<close>

definition select :: "node \<Rightarrow> selector \<Rightarrow> node list" where
  "select soup sel = filter (selects sel) (descendants soup)"

definition select_one :: "node \<Rightarrow> selector \<Rightarrow> node option" where
  "select_one soup sel = (case select soup sel of [] \<Rightarrow> None | e # es \<Rightarrow> Some e)"

text \<open>
  \<open>for element in soup.select(selector): element.decompose()\<close> removes every matched
  descendant with all that is below it.
\<close>

fun decompose_all :: "(node \<Rightarrow> bool) \<Rightarrow> node \<Rightarrow> node" where
  "decompose_all P (Tag n a cs) = Tag n a (map (decompose_all P) (filter (\<lambda>c. \<not> P c) cs))"
| "decompose_all P (NavigableString s) = NavigableString s"
| "decompose_all P (Comment s) = Comment s"
| "decompose_all P (ContainerString s) = ContainerString s"

definition unwanted_selectors :: "selector list" where
  "unwanted_selectors =
     [ByTag (u ''script''), ByTag (u ''style''), ByTag (u ''nav''), ByTag (u ''header''),
      ByTag (u ''footer''),
      ByClass (u ''advertisement''), ByClass (u ''ad''), ByClass (u ''popup''),
      ByClass (u ''modal''),
      ByClass (u ''cookie-banner''), ByClass (u ''newsletter-signup''),
      AttrContains (u ''class'') (u ''ad-''), AttrContains (u ''id'') (u ''ad-''),
      ByClass (u ''social-share''), ByClass (u ''comments-section'')]"

definition main_content_selectors :: "selector list" where
  "main_content_selectors =
     [ByTag (u ''main''), ByTag (u ''article''), AttrEquals (u ''role'') (u ''main''),
      ByClass (u ''post-content''), ByClass (u ''article-content''),
      ByClass (u ''entry-content''),
      ByClass (u ''content''), ByClass (u ''main-content'')]"

text \<open>The loop over \<open>main_content_selectors\<close>: the first selector that matches returns.\<close>

fun first_selected :: "node \<Rightarrow> selector list \<Rightarrow> node option" where
  "first_selected soup [] = None"
| "first_selected soup (sel # sels) =
     (case select_one soup sel of
        Some main_element \<Rightarrow> Some main_element
      | None \<Rightarrow> first_selected soup sels)"

text \<open>
  The function changes the soup and returns the content; the model returns both.
\<close>

definition remove_unwanted :: "node \<Rightarrow> node" where
  "remove_unwanted soup = fold (\<lambda>sel t. decompose_all (selects sel) t) unwanted_selectors soup"

definition extract_main_content :: "node \<Rightarrow> node \<times> node" where
  "extract_main_content soup =
     (let soup' = remove_unwanted soup in
      (soup',
       case first_selected soup' main_content_selectors of
         Some main_element \<Rightarrow> main_element
       | None \<Rightarrow> (case find soup' (u ''body'') of Some body \<Rightarrow> body | None \<Rightarrow> soup')))"

section \<open>Reading the HTML file\<close>

text \<open>
  An attempt to open and read the file delivers its bytes or fails with an
  \<open>OSError\<close>; decoding the bytes may fail with a \<open>UnicodeDecodeError\<close>.
\<close>

type_synonym os_error = ustr

datatype exn = OSError os_error | UnicodeDecodeError

text \<open>
  The codec \<open>utf-8\<close>: sequences of one to four bytes; overlong forms, surrogates and
  code points above \<open>0x10FFFF\<close> are errors. The codec \<open>latin-1\<close> maps every byte to
  the code point of the same number.
\<close>

definition cont :: "8 word \<Rightarrow> bool" where
  "cont b = (0x80 \<le> b \<and> b \<le> 0xBF)"

definition low6 :: "8 word \<Rightarrow> nat" where
  "low6 b = unat b mod 64"

fun utf8_decode :: "bytes \<Rightarrow> ustr option" where
  "utf8_decode [] = Some []"
| "utf8_decode (b0 # bs) =
     (if b0 < 0x80 then map_option ((#) (unat b0)) (utf8_decode bs)
      else if 0xC2 \<le> b0 \<and> b0 \<le> 0xDF then
        (case bs of
           b1 # r \<Rightarrow>
             if cont b1
             then map_option ((#) ((unat b0 - 0xC0) * 64 + low6 b1)) (utf8_decode r)
             else None
         | _ \<Rightarrow> None)
      else if 0xE0 \<le> b0 \<and> b0 \<le> 0xEF then
        (case bs of
           b1 # b2 # r \<Rightarrow>
             if cont b1 \<and> cont b2 \<and> (b0 = 0xE0 \<longrightarrow> 0xA0 \<le> b1) \<and> (b0 = 0xED \<longrightarrow> b1 \<le> 0x9F)
             then map_option ((#) ((unat b0 - 0xE0) * 4096 + low6 b1 * 64 + low6 b2))
                    (utf8_decode r)
             else None
         | _ \<Rightarrow> None)
      else if 0xF0 \<le> b0 \<and> b0 \<le> 0xF4 then
        (case bs of
           b1 # b2 # b3 # r \<Rightarrow>
             if cont b1 \<and> cont b2 \<and> cont b3 \<and> (b0 = 0xF0 \<longrightarrow> 0x90 \<le> b1)
                \<and> (b0 = 0xF4 \<longrightarrow> b1 \<le> 0x8F)
             then map_option
                    ((#) ((unat b0 - 0xF0) * 262144 + low6 b1 * 4096 + low6 b2 * 64 + low6 b3))
                    (utf8_decode r)
             else None
         | _ \<Rightarrow> None)
      else None)"

definition latin1_decode :: "bytes \<Rightarrow> ustr" where
  "latin1_decode bs = map unat bs"

text \<open>Text mode translates \<open>\r\n\<close> and \<open>\r\<close> to \<open>\n\<close>.\<close>

fun universal_newlines :: "ustr \<Rightarrow> ustr" where
  "universal_newlines [] = []"
| "universal_newlines [c] = [if c = 0x0D then 0x0A else c]"
| "universal_newlines (c # d # r) =
     (if c = 0x0D \<and> d = 0x0A then 0x0A # universal_newlines r
      else if c = 0x0D then 0x0A # universal_newlines (d # r)
      else c # universal_newlines (d # r))"

text \<open>\<open>with open(path, 'r', encoding=...) as f: html_content = f.read()\<close>.\<close>

definition read_text :: "os_error + bytes \<Rightarrow> (bytes \<Rightarrow> ustr option) \<Rightarrow> exn + ustr" where
  "read_text raw decode =
     (case raw of
        Inl e \<Rightarrow> Inl (OSError e)
      | Inr bs \<Rightarrow>
          (case decode bs of
             None \<Rightarrow> Inl UnicodeDecodeError
           | Some s \<Rightarrow> Inr (universal_newlines s)))"

text \<open>
  The \<open>try\<close>/\<open>except UnicodeDecodeError\<close> of \<open>convert\<close>; \<open>first\<close> and \<open>second\<close> are
  what the first and the second attempt to open and read the file deliver.
\<close>

definition read_html :: "os_error + bytes \<Rightarrow> os_error + bytes \<Rightarrow> exn + ustr" where
  "read_html first second =
     (case read_text first utf8_decode of
        Inl UnicodeDecodeError \<Rightarrow> read_text second (\<lambda>bs. Some (latin1_decode bs))
      | Inl (OSError e) \<Rightarrow> Inl (OSError e)
      | Inr html_content \<Rightarrow> Inr html_content)"

text \<open>\<open>main\<close> catches every exception of \<open>convert\<close> and exits with status 1.\<close>

definition exit_status :: "exn + 'a \<Rightarrow> nat" where
  "exit_status r = (case r of Inl e \<Rightarrow> 1 | Inr v \<Rightarrow> 0)"

section \<open>Example inputs\<close>

text \<open>
  A converter for \<open>page.html\<close> in the current directory, with the assets folder
  \<open>page_files\<close> holding \<open>foo.png\<close>, and the output in \<open>output/\<close>.
\<close>

definition example_converter :: converter where
  "example_converter =
     \<lparr>html_file_path = Path [] [u ''page.html''],
      base_dir = Path [] [],
      assets_folder = Some (Path [] [u ''page_files'']),
      output_file = Path [] [u ''output'', u ''page.md''],
      images_dir = Path [] [u ''output'', u ''images''],
      processed_images = [],
      disk = [Path [] [u ''page_files''] \<mapsto> Directory,
              Path [] [u ''page_files'', u ''foo.png''] \<mapsto> File [0x89, 0x50, 0x4E, 0x47],
              Path [] [u ''output''] \<mapsto> Directory,
              Path [] [u ''output'', u ''images''] \<mapsto> Directory]\<rparr>"

definition document :: "node list \<Rightarrow> node" where
  "document cs = Tag (u ''[document]'') [] cs"

definition images_processed :: "converter \<Rightarrow> nat" where
  "images_processed self = length (processed_images self)"

text \<open>
  A converter for \<open>site/page.html\<close>, whose page refers to \<open>../pics/a.png\<close>, a file
  outside the page's directory: \<open>pics/a.png\<close>, which is \<open>site/../pics/a.png\<close> too.
\<close>

definition site_converter :: converter where
  "site_converter =
     \<lparr>html_file_path = Path [] [u ''site'', u ''page.html''],
      base_dir = Path [] [u ''site''],
      assets_folder = Some (Path [] [u ''site'', u ''page_files'']),
      output_file = Path [] [u ''output'', u ''page.md''],
      images_dir = Path [] [u ''output'', u ''images''],
      processed_images = [],
      disk = [Path [] [u ''site''] \<mapsto> Directory,
              Path [] [u ''site'', u ''page_files''] \<mapsto> Directory,
              Path [] [u ''pics''] \<mapsto> Directory,
              Path [] [u ''pics'', u ''a.png''] \<mapsto> File [0x89, 0x50, 0x4E, 0x47],
              Path [] [u ''site'', u ''..'', u ''pics'', u ''a.png'']
                \<mapsto> File [0x89, 0x50, 0x4E, 0x47],
              Path [] [u ''output''] \<mapsto> Directory,
              Path [] [u ''output'', u ''images''] \<mapsto> Directory]\<rparr>"

text \<open>
  A page with a navigation bar, a \<open>div\<close> of class \<open>content\<close> and, after it, an
  \<open>article\<close>; and a page with none of the content selectors.
\<close>

definition article_document :: node where
  "article_document =
     document [Tag (u ''html'') []
       [Tag (u ''body'') []
          [Tag (u ''nav'') [] [NavigableString (u ''menu'')],
           Tag (u ''div'') [(u ''class'', u ''wide content'')] [NavigableString (u ''intro'')],
           Tag (u ''article'') [] [NavigableString (u ''story'')]]]]"

definition plain_document :: node where
  "plain_document =
     document [Tag (u ''html'') []
       [Tag (u ''body'') [] [Tag (u ''p'') [] [NavigableString (u ''hello'')]]]]"

text \<open>
  A page whose title holds the escape \<open>&nbsp;\<close> between two spaces, and a page whose
  title has spaces, a line break, a ruby text, a comment and the escape \<open>&amp;\<close>.
\<close>

definition title_document :: node where
  "title_document =
     document [Tag (u ''html'') []
       [Tag (u ''head'') [] [Tag (u ''title'') [] [NavigableString (u ''a &nbsp; b'')]]]]"

definition tidy_title :: node where
  "tidy_title =
     Tag (u ''title'') []
       [NavigableString (u ''  Tom &amp;''),
        Tag (u ''rt'') [] [ContainerString (u ''x'')],
        Comment (u ''c''),
        NavigableString (u ''\<newline>   Jerry '')]"

definition tidy_title_document :: node where
  "tidy_title_document = document [Tag (u ''html'') [] [Tag (u ''head'') [] [tidy_title]]]"

text \<open>
  A page with three \<open>meta\<close> tags for the author, the last of them with an empty
  \<open>content\<close>; and a page with two descriptions, the second under \<open>property\<close> in a tag
  that has another \<open>name\<close>.
\<close>

definition authors_document :: node where
  "authors_document =
     document
       [Tag (u ''meta'') [(u ''name'', u ''author''), (u ''content'', u ''Ann'')] [],
        Tag (u ''meta'') [(u ''property'', u ''og:author''), (u ''content'', u ''Bob'')] [],
        Tag (u ''meta'') [(u ''name'', u ''author''), (u ''content'', [])] []]"

definition descriptions_document :: node where
  "descriptions_document =
     document
       [Tag (u ''meta'') [(u ''name'', u ''description''), (u ''content'', u ''A'')] [],
        Tag (u ''meta'') [(u ''name'', u ''twitter:description''),
                          (u ''property'', u ''og:description''), (u ''content'', u ''B'')] []]"

section \<open>The claims as the specification words them\<close>

text \<open>
  The image rule's candidate paths: \<open><assets>/<basename>\<close>,
  \<open><assets>/<src with leading "./" stripped>\<close> and
  \<open><inputDir>/<src with leading "./" stripped>\<close>, where stripping removes the
  prefix \<open>./\<close>.
\<close>

definition spec_strip_dot_slash :: "ustr \<Rightarrow> ustr" where
  "spec_strip_dot_slash s = (if startswith s (u ''./'') then drop 2 s else s)"

definition spec_candidate_paths :: "path \<Rightarrow> path \<Rightarrow> ustr \<Rightarrow> path list" where
  "spec_candidate_paths af bd img_src =
     [joinpath af (basename img_src),
      joinpath af (spec_strip_dot_slash img_src),
      joinpath bd (spec_strip_dot_slash img_src)]"

text \<open>
  A \<open>meta\<close> tag that maps to a key: it has a name, from \<open>name\<close> or \<open>property\<close>, that
  is recognized for the key, and a \<open>content\<close> attribute.
\<close>

definition spec_maps_to :: "ustr \<Rightarrow> node \<Rightarrow> bool" where
  "spec_maps_to k meta =
     (((case get (attrs meta) (u ''name'') of None \<Rightarrow> False | Some n \<Rightarrow> meta_key n = Some k) \<or>
       (case get (attrs meta) (u ''property'') of None \<Rightarrow> False | Some n \<Rightarrow> meta_key n = Some k))
      \<and> get (attrs meta) (u ''content'') \<noteq> None)"

section \<open>Vocabulary of the theorems\<close>

text \<open>Two neighbouring characters that both satisfy \<open>P\<close>.\<close>

fun adjacent :: "(nat \<Rightarrow> bool) \<Rightarrow> ustr \<Rightarrow> bool" where
  "adjacent P (a # b # r) = ((P a \<and> P b) \<or> adjacent P (b # r))"
| "adjacent P [a] = False"
| "adjacent P [] = False"

text \<open>
  The name that the loop reads from a \<open>meta\<close> tag (\<open>name\<close> when it is there and not
  empty, else \<open>property\<close>), and the tags whose content the loop stores under a key:
  those with a non-empty name that is recognized for the key and a non-empty
  \<open>content\<close>.
\<close>

definition meta_name :: "node \<Rightarrow> ustr option" where
  "meta_name meta =
     (if truthy (get (attrs meta) (u ''name'')) then get (attrs meta) (u ''name'')
      else get (attrs meta) (u ''property''))"

definition contributes :: "ustr \<Rightarrow> node \<Rightarrow> bool" where
  "contributes k meta =
     (case (meta_name meta, get (attrs meta) (u ''content'')) of
        (Some n, Some c) \<Rightarrow> n \<noteq> [] \<and> c \<noteq> [] \<and> meta_key n = Some k
      | _ \<Rightarrow> False)"

section \<open>The image loop: auxiliary facts\<close>

lemma startswith_data_not_http:
  "startswith s (u ''data:'') \<Longrightarrow>
     \<not> startswith s (u ''http://'') \<and> \<not> startswith s (u ''https://'')"
  by (cases s) (auto simp: u_def)

lemma process_image_data:
  "s \<noteq> [] \<Longrightarrow> startswith s (u ''data:'') \<Longrightarrow> process_image self s = Inr (self, [])"
  using startswith_data_not_http[of s] by (simp add: process_image_def)

lemma get_setitem: "get (setitem a k v) k' = (if k' = k then Some v else get a k')"
  by (simp add: get_def setitem_def update_conv')

lemma try_paths_nonempty: "try_paths self fn ps = Inr (Some (self', r)) \<Longrightarrow> r \<noteq> []"
  by (induction ps) (auto simp: u_def Let_def split: if_splits sum.splits)

lemma process_image_nonempty:
  "s \<noteq> [] \<Longrightarrow> \<not> startswith s (u ''data:'') \<Longrightarrow> process_image self s = Inr (self', r)
     \<Longrightarrow> r \<noteq> []"
  by (auto simp: process_image_def split: option.splits sum.splits if_splits
        dest: try_paths_nonempty)

lemma src_alt_distinct: "u ''src'' \<noteq> u ''alt''"
  by (simp add: u_def)

text \<open>What one round of the loop does to the attributes of a tag.\<close>

lemma img_tag_untouched:
  "\<not> truthy (get a (u ''src'')) \<Longrightarrow> process_img_tag self a = Inr (self, a)"
  by (auto simp: process_img_tag_def truthy_def split: option.splits)

lemma img_tag_cases:
  assumes "process_img_tag self a = Inr (self', a')" and "truthy (get a (u ''src''))"
  obtains s r where "get a (u ''src'') = Some s" "s \<noteq> []"
    "process_image self s = Inr (self', r)"
    "a' = (let img1 = (if r \<noteq> [] then setitem a (u ''src'') r else a)
           in if \<not> truthy (get img1 (u ''alt'')) then setitem img1 (u ''alt'') (u ''Image'')
              else img1)"
  using assms
  by (auto simp: process_img_tag_def truthy_def Let_def split: option.splits sum.splits prod.splits)

lemma img_tag_src:
  assumes "process_img_tag self a = Inr (self', a')"
  shows "get a' (u ''src'') =
     (case get a (u ''src'') of
        None \<Rightarrow> None
      | Some s \<Rightarrow>
          (case process_image self s of
             Inr (s1, r) \<Rightarrow> if s \<noteq> [] \<and> r \<noteq> [] then Some r else Some s
           | Inl e \<Rightarrow> Some s))"
proof (cases "truthy (get a (u ''src''))")
  case True
  from assms True show ?thesis
    by (rule img_tag_cases) (auto simp: Let_def get_setitem src_alt_distinct)
next
  case False
  with assms img_tag_untouched[OF False, of self] show ?thesis
    by (auto simp: truthy_def split: option.splits sum.splits)
qed

lemma img_tag_alt:
  assumes "process_img_tag self a = Inr (self', a')"
  shows "get a' (u ''alt'') =
     (if truthy (get a (u ''src'')) \<and> \<not> truthy (get a (u ''alt''))
      then Some (u ''Image'') else get a (u ''alt''))"
proof (cases "truthy (get a (u ''src''))")
  case True
  from assms True show ?thesis
    by (rule img_tag_cases)
       (auto simp: Let_def get_setitem truthy_def src_alt_distinct[symmetric] True)
next
  case False
  with assms img_tag_untouched[OF False, of self] show ?thesis by simp
qed

text \<open>The traversal of the tree is the loop over \<open>find_all('img')\<close>.\<close>

lemma image_loop_append:
  "image_loop self (xs @ ys) =
     (case image_loop self xs of
        Inl e \<Rightarrow> Inl e
      | Inr (self1, xs') \<Rightarrow>
          (case image_loop self1 ys of
             Inl e \<Rightarrow> Inl e
           | Inr (self2, ys') \<Rightarrow> Inr (self2, xs' @ ys')))"
  by (induction xs arbitrary: self) (auto split: sum.splits prod.splits)

lemma process_images_link:
  "process_images self t = Inr (self', t') \<Longrightarrow>
     image_loop self (map attrs (filter (is_named (u ''img'')) (t # descendants t)))
       = Inr (self', map attrs (filter (is_named (u ''img'')) (t' # descendants t')))"
  "process_images_list self ts = Inr (self', ts') \<Longrightarrow>
     image_loop self
       (map attrs (filter (is_named (u ''img'')) (concat (map (\<lambda>c. c # descendants c) ts))))
       = Inr (self',
          map attrs (filter (is_named (u ''img'')) (concat (map (\<lambda>c. c # descendants c) ts'))))"
proof (induction self t and self ts arbitrary: self' t' and self' ts'
       rule: process_images_process_images_list.induct)
  case (1 self n a cs)
  then show ?case
    by (auto split: sum.splits prod.splits if_splits)
next
  case (2 self s)
  then show ?case by auto
next
  case (3 self s)
  then show ?case by auto
next
  case (4 self s)
  then show ?case by auto
next
  case (5 self)
  then show ?case by auto
next
  case (6 self c cs)
  from "6.prems" obtain s1 c' cs' where p1: "process_images self c = Inr (s1, c')"
    and p2: "process_images_list s1 cs = Inr (self', cs')" and t: "ts' = c' # cs'"
    by (auto split: sum.splits prod.splits)
  have 1: "image_loop self (map attrs (filter (is_named (u ''img'')) (c # descendants c)))
       = Inr (s1, map attrs (filter (is_named (u ''img'')) (c' # descendants c')))"
    using p1 by (rule "6.IH"(1))
  have 2: "image_loop s1
       (map attrs (filter (is_named (u ''img'')) (concat (map (\<lambda>c. c # descendants c) cs))))
       = Inr (self',
          map attrs (filter (is_named (u ''img'')) (concat (map (\<lambda>c. c # descendants c) cs'))))"
    using p1 p2 by (rule "6.IH"(2)[OF _ refl])
  have "image_loop self
       (map attrs (filter (is_named (u ''img'')) (c # descendants c))
        @ map attrs (filter (is_named (u ''img'')) (concat (map (\<lambda>c. c # descendants c) cs))))
     = Inr (self',
        map attrs (filter (is_named (u ''img'')) (c' # descendants c'))
        @ map attrs (filter (is_named (u ''img'')) (concat (map (\<lambda>c. c # descendants c) cs'))))"
    by (simp only: image_loop_append 1 2 sum.case prod.case)
  then show ?case unfolding t
    by (simp only: list.map concat.simps filter_append map_append)
qed

lemma image_stage_loop:
  assumes "image_stage self soup = Inr (self', soup')"
  shows "image_loop self (map attrs (find_all soup (u ''img'')))
     = Inr (self', map attrs (find_all soup' (u ''img'')))"
proof (cases soup)
  case (Tag n a cs)
  with assms obtain cs' where 2: "process_images_list self cs = Inr (self', cs')"
    and s: "soup' = Tag n a cs'"
    by (auto simp: image_stage_def split: sum.splits)
  show ?thesis
    using process_images_link(2)[OF 2] Tag s by (simp add: find_all_def)
qed (use assms in \<open>auto simp: find_all_def image_stage_def\<close>)

lemma image_loop_all2:
  assumes "\<And>self a self' a'. process_img_tag self a = Inr (self', a') \<Longrightarrow> P a a'"
  shows "image_loop self imgs = Inr (self', imgs') \<Longrightarrow> list_all2 P imgs imgs'"
proof (induction imgs arbitrary: self imgs')
  case Nil
  then show ?case by simp
next
  case (Cons a imgs)
  from Cons.prems obtain s1 a' r where 1: "process_img_tag self a = Inr (s1, a')"
    and 2: "image_loop s1 imgs = Inr (self', r)" and 3: "imgs' = a' # r"
    by (auto split: sum.splits prod.splits)
  have "P a a'" using assms 1 .
  moreover have "list_all2 P imgs r" using Cons.IH 2 .
  ultimately show ?case using 3 by simp
qed

lemma image_stage_all2:
  assumes "\<And>self a self' a'. process_img_tag self a = Inr (self', a') \<Longrightarrow> P a a'"
    and "image_stage self soup = Inr (self', soup')"
  shows "list_all2 (\<lambda>img img'. P (attrs img) (attrs img'))
           (find_all soup (u ''img'')) (find_all soup' (u ''img''))"
proof -
  have "list_all2 P (map attrs (find_all soup (u ''img''))) (map attrs (find_all soup' (u ''img'')))"
    using assms(1) image_stage_loop[OF assms(2)] by (rule image_loop_all2)
  then show ?thesis
    by (simp add: list_all2_map1 list_all2_map2)
qed

text \<open>No step of the loop writes to \<open>processed_images\<close>.\<close>

lemma try_paths_processed:
  "try_paths self fn ps = Inr (Some (self', r)) \<Longrightarrow> processed_images self' = processed_images self"
  by (induction ps) (auto simp: Let_def split: if_splits sum.splits)

lemma process_image_processed:
  "process_image self s = Inr (self', r) \<Longrightarrow> processed_images self' = processed_images self"
  by (auto simp: process_image_def split: option.splits sum.splits if_splits
        dest: try_paths_processed)

lemma process_img_tag_processed:
  assumes "process_img_tag self a = Inr (self', a')"
  shows "processed_images self' = processed_images self"
proof (cases "truthy (get a (u ''src''))")
  case True
  from assms True show ?thesis
    by (rule img_tag_cases) (rule process_image_processed)
next
  case False
  with assms img_tag_untouched[OF False, of self] show ?thesis by simp
qed

lemma image_loop_processed:
  "image_loop self imgs = Inr (self', imgs') \<Longrightarrow> processed_images self' = processed_images self"
proof (induction imgs arbitrary: self imgs')
  case Nil
  then show ?case by simp
next
  case (Cons a imgs)
  from Cons.prems obtain s1 a' r where 1: "process_img_tag self a = Inr (s1, a')"
    and 2: "image_loop s1 imgs = Inr (self', r)"
    by (auto split: sum.splits prod.splits)
  from Cons.IH[OF 2] process_img_tag_processed[OF 1] show ?case by simp
qed

lemma processed_images_unchanged:
  "image_stage self soup = Inr (self', soup') \<Longrightarrow> processed_images self' = processed_images self"
  using image_loop_processed image_stage_loop by blast

lemma example_find_all:
  "find_all (document [Tag (u ''img'') a []]) (u ''img'') = [Tag (u ''img'') a []]"
  by (simp add: find_all_def document_def)

lemmas image_eval = image_stage_def document_def process_img_tag_def process_image_def
  get_def setitem_def truthy_def u_def example_converter_def potential_paths_def
  joinpath_def parse_root_def parse_parts_def basename_def lstrip_chars_def exists_def
  copy2_def parent_def Let_def

section \<open>Inline images keep their \<open>src\<close>\<close>

text \<open>
  C1, as the code has it: for an \<open>img\<close> whose \<open>src\<close> begins with \<open>data:\<close>,
  \<open>_process_image\<close> returns the empty string, and the loop of \<open>convert\<close>, which
  assigns a new \<open>src\<close> only when it is not empty, leaves the \<open>src\<close> of the tag as it
  was: after the stage the \<open>data:\<close> reference is in the tree still.
\<close>

theorem data_src_kept:
  assumes "image_stage self soup = Inr (self', soup')"
  shows "list_all2 (\<lambda>img img'. \<forall>s. get (attrs img) (u ''src'') = Some s \<and> startswith s (u ''data:'')
       \<longrightarrow> process_image self s = Inr (self, []) \<and> get (attrs img') (u ''src'') = Some s)
     (find_all soup (u ''img'')) (find_all soup' (u ''img''))"
proof (rule image_stage_all2[OF _ assms])
  fix c a c' a'
  assume t: "process_img_tag c a = Inr (c', a')"
  show "\<forall>s. get a (u ''src'') = Some s \<and> startswith s (u ''data:'')
       \<longrightarrow> process_image self s = Inr (self, []) \<and> get a' (u ''src'') = Some s"
  proof (intro allI impI, elim conjE)
    fix s assume g: "get a (u ''src'') = Some s" and d: "startswith s (u ''data:'')"
    from d have ne: "s \<noteq> []" by (auto simp: u_def)
    show "process_image self s = Inr (self, []) \<and> get a' (u ''src'') = Some s"
      using g process_image_data[OF ne d] by (simp add: img_tag_src[OF t])
  qed
qed

theorem data_src_kept_witness:
  "image_stage example_converter
     (document [Tag (u ''img'') [(u ''src'', u ''data:image/png;base64,iVBORw0KGgo='')] []])
   = Inr (example_converter,
      document [Tag (u ''img'') [(u ''src'', u ''data:image/png;base64,iVBORw0KGgo=''),
                                 (u ''alt'', u ''Image'')] []]) \<and>
   startswith (u ''data:image/png;base64,iVBORw0KGgo='') (u ''data:'') \<and>
   process_image example_converter (u ''data:image/png;base64,iVBORw0KGgo='')
     = Inr (example_converter, []) \<and>
   get [(u ''src'', u ''data:image/png;base64,iVBORw0KGgo=''), (u ''alt'', u ''Image'')] (u ''src'')
     = Some (u ''data:image/png;base64,iVBORw0KGgo='')"
proof -
  let ?d = "u ''data:image/png;base64,iVBORw0KGgo=''"
  let ?soup = "document [Tag (u ''img'') [(u ''src'', ?d)] []]"
  let ?soup' = "document [Tag (u ''img'') [(u ''src'', ?d), (u ''alt'', u ''Image'')] []]"
  have st: "image_stage example_converter ?soup = Inr (example_converter, ?soup')"
    by (simp add: image_stage_def document_def process_img_tag_def process_image_def
        get_def setitem_def truthy_def u_def)
  have p: "startswith ?d (u ''data:'')" by (simp add: u_def)
  have g: "get [(u ''src'', ?d)] (u ''src'') = Some ?d" by (simp add: get_def)
  from data_src_kept[OF st] p g
  have "process_image example_converter ?d = Inr (example_converter, []) \<and>
        get [(u ''src'', ?d), (u ''alt'', u ''Image'')] (u ''src'') = Some ?d"
    by (simp add: example_find_all)
  with st p show ?thesis by simp
qed

text \<open>
  C1 as stated fails: after the loop the \<open>src\<close> of
  \<open><img src="data:image/png;base64,iVBORw0KGgo=">\<close> is the \<open>data:\<close> reference still,
  not the empty string.
\<close>

theorem data_src_not_cleared:
  "image_stage example_converter
     (document [Tag (u ''img'') [(u ''src'', u ''data:image/png;base64,iVBORw0KGgo='')] []])
   = Inr (example_converter,
      document [Tag (u ''img'') [(u ''src'', u ''data:image/png;base64,iVBORw0KGgo=''),
                                 (u ''alt'', u ''Image'')] []])"
  by (simp add: image_stage_def document_def process_img_tag_def process_image_def
        get_def setitem_def truthy_def u_def)

section \<open>The rewrite record is never written\<close>

text \<open>
  C2 at \<open><img src="foo.png">\<close> with \<open>foo.png\<close> in the assets folder: the image is
  copied and the \<open>src\<close> rewritten, and \<open>processed_images\<close> is empty afterwards, so
  the count reported is 0.
\<close>

theorem processed_images_stays_empty:
  "image_stage example_converter (document [Tag (u ''img'') [(u ''src'', u ''foo.png'')] []])
   = Inr (example_converter\<lparr>disk := (disk example_converter)
          (Path [] [u ''output'', u ''images'', u ''foo.png'']
             \<mapsto> File [0x89, 0x50, 0x4E, 0x47])\<rparr>,
      document [Tag (u ''img'') [(u ''src'', u ''images/foo.png''), (u ''alt'', u ''Image'')] []]) \<and>
   images_processed (example_converter\<lparr>disk := (disk example_converter)
          (Path [] [u ''output'', u ''images'', u ''foo.png'']
             \<mapsto> File [0x89, 0x50, 0x4E, 0x47])\<rparr>) = 0"
  by (simp add: image_eval images_processed_def)

section \<open>The placeholder \<open>alt\<close>\<close>

text \<open>
  C6, as the code has it: the placeholder is set inside the branch of a non-empty
  \<open>src\<close>. An \<open>img\<close> with a non-empty \<open>src\<close> and a missing or empty \<open>alt\<close> has
  the \<open>alt\<close> \<open>Image\<close> after the loop; an \<open>img\<close> whose \<open>src\<close> is missing or empty
  keeps all its attributes, a missing \<open>alt\<close> included.
\<close>

theorem alt_filled_when_src:
  assumes "image_stage self soup = Inr (self', soup')"
  shows "list_all2 (\<lambda>img img'.
       (truthy (get (attrs img) (u ''src'')) \<and> \<not> truthy (get (attrs img) (u ''alt''))
          \<longrightarrow> get (attrs img') (u ''alt'') = Some (u ''Image'')) \<and>
       (\<not> truthy (get (attrs img) (u ''src'')) \<longrightarrow> attrs img' = attrs img))
     (find_all soup (u ''img'')) (find_all soup' (u ''img''))"
proof (rule image_stage_all2[OF _ assms])
  fix c a c' a'
  assume t: "process_img_tag c a = Inr (c', a')"
  show "(truthy (get a (u ''src'')) \<and> \<not> truthy (get a (u ''alt''))
          \<longrightarrow> get a' (u ''alt'') = Some (u ''Image'')) \<and>
       (\<not> truthy (get a (u ''src'')) \<longrightarrow> a' = a)"
    using t img_tag_untouched[of a c] by (auto simp: img_tag_alt[OF t])
qed

theorem alt_filled_when_src_witness:
  "image_stage example_converter
     (document [Tag (u ''img'') [(u ''src'', u ''http://example.org/a.png'')] []])
   = Inr (example_converter,
      document [Tag (u ''img'') [(u ''src'', u ''http://example.org/a.png''),
                                 (u ''alt'', u ''Image'')] []]) \<and>
   image_stage example_converter (document [Tag (u ''img'') [(u ''width'', u ''10'')] []])
   = Inr (example_converter, document [Tag (u ''img'') [(u ''width'', u ''10'')] []]) \<and>
   truthy (get [(u ''src'', u ''http://example.org/a.png'')] (u ''src'')) \<and>
   \<not> truthy (get [(u ''src'', u ''http://example.org/a.png'')] (u ''alt'')) \<and>
   \<not> truthy (get [(u ''width'', u ''10'')] (u ''src'')) \<and>
   get [(u ''src'', u ''http://example.org/a.png''), (u ''alt'', u ''Image'')] (u ''alt'')
     = Some (u ''Image'')"
proof -
  let ?a = "[(u ''src'', u ''http://example.org/a.png'')]"
  let ?a' = "[(u ''src'', u ''http://example.org/a.png''), (u ''alt'', u ''Image'')]"
  let ?b = "[(u ''width'', u ''10'')]"
  have sa: "image_stage example_converter (document [Tag (u ''img'') ?a []])
      = Inr (example_converter, document [Tag (u ''img'') ?a' []])"
    by (simp add: image_stage_def document_def process_img_tag_def process_image_def
        get_def setitem_def truthy_def u_def)
  have sb: "image_stage example_converter (document [Tag (u ''img'') ?b []])
      = Inr (example_converter, document [Tag (u ''img'') ?b []])"
    by (simp add: image_stage_def document_def process_img_tag_def get_def u_def)
  have a: "truthy (get ?a (u ''src''))" "\<not> truthy (get ?a (u ''alt''))"
    by (simp_all add: truthy_def get_def u_def)
  have b: "\<not> truthy (get ?b (u ''src''))"
    by (simp add: truthy_def get_def u_def)
  from alt_filled_when_src[OF sa] a
  have "get ?a' (u ''alt'') = Some (u ''Image'')"
    by (simp add: example_find_all)
  with sa sb a b show ?thesis by simp
qed

text \<open>
  C6 as stated fails: \<open><img width="10">\<close> has no \<open>alt\<close>, and the loop leaves it
  without one.
\<close>

theorem alt_not_filled_without_src:
  "get [(u ''width'', u ''10'')] (u ''alt'') = None \<and>
   image_stage example_converter (document [Tag (u ''img'') [(u ''width'', u ''10'')] []])
   = Inr (example_converter, document [Tag (u ''img'') [(u ''width'', u ''10'')] []])"
  by (simp add: image_stage_def document_def process_img_tag_def get_def u_def)

section \<open>Local images\<close>

text \<open>
  C7 at the \<open>src\<close> \<open>../pics/a.png\<close>: it has no leading \<open>./\<close>, so the third
  candidate of the specification is \<open>site/../pics/a.png\<close>, the file that the \<open>src\<close>
  names, and it exists. The code strips every leading \<open>.\<close> and \<open>/\<close>, looks for
  \<open>site/page_files/a.png\<close>, \<open>site/page_files/pics/a.png\<close> and \<open>site/pics/a.png\<close>,
  finds none of them, copies nothing and leaves the \<open>src\<close> as it is.
\<close>

theorem parent_relative_src_not_resolved:
  "List.find (exists (disk site_converter))
     (spec_candidate_paths (Path [] [u ''site'', u ''page_files'']) (base_dir site_converter)
        (u ''../pics/a.png''))
     = Some (Path [] [u ''site'', u ''..'', u ''pics'', u ''a.png'']) \<and>
   disk site_converter (Path [] [u ''site'', u ''..'', u ''pics'', u ''a.png''])
     = Some (File [0x89, 0x50, 0x4E, 0x47]) \<and>
   assets_folder site_converter = Some (Path [] [u ''site'', u ''page_files'']) \<and>
   potential_paths (Path [] [u ''site'', u ''page_files'']) (base_dir site_converter)
        (u ''../pics/a.png'')
     = [Path [] [u ''site'', u ''page_files'', u ''a.png''],
        Path [] [u ''site'', u ''page_files'', u ''pics'', u ''a.png''],
        Path [] [u ''site'', u ''pics'', u ''a.png'']] \<and>
   process_image site_converter (u ''../pics/a.png'')
     = Inr (site_converter, u ''../pics/a.png'')"
  by (simp add: site_converter_def spec_candidate_paths_def spec_strip_dot_slash_def
        process_image_def potential_paths_def joinpath_def parse_root_def parse_parts_def
        basename_def lstrip_chars_def exists_def copy2_def u_def)

section \<open>A non-empty \<open>src\<close> stays non-empty\<close>

text \<open>
  C10: an \<open>img\<close> whose \<open>src\<close> is not empty before the loop has a \<open>src\<close> that is not
  empty after it, and a \<open>src\<close> that the loop changes is not empty: the loop never
  stores the empty string.
\<close>

theorem src_stays_nonempty:
  assumes "image_stage self soup = Inr (self', soup')"
  shows "list_all2 (\<lambda>img img'.
       (truthy (get (attrs img) (u ''src'')) \<longrightarrow> truthy (get (attrs img') (u ''src''))) \<and>
       (get (attrs img') (u ''src'') \<noteq> get (attrs img) (u ''src'')
          \<longrightarrow> truthy (get (attrs img') (u ''src''))))
     (find_all soup (u ''img'')) (find_all soup' (u ''img''))"
proof (rule image_stage_all2[OF _ assms])
  fix c a c' a'
  assume t: "process_img_tag c a = Inr (c', a')"
  show "(truthy (get a (u ''src'')) \<longrightarrow> truthy (get a' (u ''src''))) \<and>
       (get a' (u ''src'') \<noteq> get a (u ''src'') \<longrightarrow> truthy (get a' (u ''src'')))"
    by (auto simp: img_tag_src[OF t] truthy_def split: option.splits sum.splits)
qed

theorem src_stays_nonempty_witness:
  "image_stage example_converter (document [Tag (u ''img'') [(u ''src'', u ''foo.png'')] []])
   = Inr (example_converter\<lparr>disk := (disk example_converter)
          (Path [] [u ''output'', u ''images'', u ''foo.png'']
             \<mapsto> File [0x89, 0x50, 0x4E, 0x47])\<rparr>,
      document [Tag (u ''img'') [(u ''src'', u ''images/foo.png''), (u ''alt'', u ''Image'')] []]) \<and>
   truthy (get [(u ''src'', u ''foo.png'')] (u ''src'')) \<and>
   truthy (get [(u ''src'', u ''images/foo.png''), (u ''alt'', u ''Image'')] (u ''src''))"
proof -
  let ?soup = "document [Tag (u ''img'') [(u ''src'', u ''foo.png'')] []]"
  have st: "image_stage example_converter ?soup
      = Inr (example_converter\<lparr>disk := (disk example_converter)
          (Path [] [u ''output'', u ''images'', u ''foo.png'']
             \<mapsto> File [0x89, 0x50, 0x4E, 0x47])\<rparr>,
      document [Tag (u ''img'') [(u ''src'', u ''images/foo.png''), (u ''alt'', u ''Image'')] []])"
    by (simp add: image_eval)
  have t: "truthy (get [(u ''src'', u ''foo.png'')] (u ''src''))"
    by (simp add: truthy_def get_def u_def)
  from src_stays_nonempty[OF st] t
  have "truthy (get [(u ''src'', u ''images/foo.png''), (u ''alt'', u ''Image'')] (u ''src''))"
    by (simp add: example_find_all)
  with st t show ?thesis by simp
qed

text \<open>A directory among the candidates ends the run.\<close>

lemma directory_candidate_raises:
  "image_stage example_converter (document [Tag (u ''img'') [(u ''src'', u ''page_files'')] []])
     = Inl IsADirectoryError"
  by (simp add: image_eval)

section \<open>Regular expressions and strings: auxiliary facts\<close>

lemma rep_cls_head:
  "lo \<le> min hi (length (takeWhile P s)) \<Longrightarrow>
     \<exists>ms. rep (matches (Cls P)) lo hi c s = (c, drop (min hi (length (takeWhile P s))) s) # ms"
  "min hi (length (takeWhile P s)) < lo \<Longrightarrow> rep (matches (Cls P)) lo hi c s = []"
proof (induction s arbitrary: lo hi)
  case Nil
  { case 1 then show ?case by simp }
  { case 2 then show ?case by simp }
next
  case (Cons x xs)
  { case 1
    show ?case
    proof (cases hi)
      case 0
      with 1 show ?thesis by simp
    next
      case (Suc h)
      show ?thesis
      proof (cases "P x")
        case True
        with 1 Suc have "lo - 1 \<le> min h (length (takeWhile P xs))" by auto
        from Cons.IH(1)[OF this] True Suc show ?thesis by auto
      next
        case False
        with 1 Suc show ?thesis by simp
      qed
    qed }
  { case 2
    show ?case
    proof (cases hi)
      case 0
      with 2 show ?thesis by simp
    next
      case (Suc h)
      show ?thesis
      proof (cases "P x")
        case True
        with 2 Suc have "min h (length (takeWhile P xs)) < lo - 1" "lo \<noteq> 0" by auto
        with Cons.IH(2)[of h "lo - 1"] True Suc show ?thesis by auto
      next
        case False
        with 2 Suc show ?thesis by simp
      qed
    qed }
qed

lemma drop_takeWhile_length: "drop (length (takeWhile P s)) s = dropWhile P s"
  by (simp add: dropWhile_eq_drop)

lemma sub_step_plus_cls:
  "sub_step (Rep (Suc 0) None (Cls P)) t x xs =
     (if P x then (expand t [], dropWhile P xs) else ([x], xs))"
proof (cases "P x")
  case True
  have "Suc 0 \<le> min (length (x # xs)) (length (takeWhile P (x # xs)))" using True by simp
  from rep_cls_head(1)[OF this, of "[]"] obtain ms where
    "rep (matches (Cls P)) (Suc 0) (length (x # xs)) [] (x # xs)
       = ([], drop (min (length (x # xs)) (length (takeWhile P (x # xs)))) (x # xs)) # ms"
    by blast
  moreover have "min (length (x # xs)) (length (takeWhile P (x # xs))) = length (takeWhile P (x # xs))"
    using length_takeWhile_le[of P "x # xs"] by (simp only: min_def split: if_splits) simp
  ultimately have "matches (Rep (Suc 0) None (Cls P)) [] (x # xs) = ([], dropWhile P (x # xs)) # ms"
    by (simp only: matches.simps option.case drop_takeWhile_length)
  then show ?thesis using True
    by (simp add: sub_step_def length_dropWhile_le)
next
  case False
  have "min (length (x # xs)) (length (takeWhile P (x # xs))) < Suc 0" using False by simp
  from rep_cls_head(2)[OF this, of "[]"] show ?thesis using False
    by (simp add: sub_step_def)
qed

lemma sub_plus_cls:
  "sub (Rep (Suc 0) None (Cls P)) [T w] (x # xs) =
     (if P x then w @ sub (Rep (Suc 0) None (Cls P)) [T w] (dropWhile P xs)
      else x # sub (Rep (Suc 0) None (Cls P)) [T w] xs)"
  by (simp add: sub_step_plus_cls)

lemma adjacent_Cons:
  "adjacent P (a # s) = ((P a \<and> s \<noteq> [] \<and> P (hd s)) \<or> adjacent P s)"
  by (cases s) auto

lemma adjacent_append:
  "adjacent P (a @ b) =
     (adjacent P a \<or> adjacent P b \<or> (a \<noteq> [] \<and> b \<noteq> [] \<and> P (last a) \<and> P (hd b)))"
  by (induction a) (auto simp: adjacent_Cons)

lemma adjacent_rev: "adjacent P (rev s) = adjacent P s"
  by (induction s) (auto simp: adjacent_Cons adjacent_append hd_rev last_rev)

lemma adjacent_dropWhile: "\<not> adjacent P s \<Longrightarrow> \<not> adjacent P (dropWhile Q s)"
proof -
  assume "\<not> adjacent P s"
  then have "\<not> adjacent P (takeWhile Q s @ dropWhile Q s)" by simp
  then show ?thesis unfolding adjacent_append by blast
qed

lemma adjacent_drop: "\<not> adjacent P s \<Longrightarrow> \<not> adjacent P (drop n s)"
proof -
  assume "\<not> adjacent P s"
  then have "\<not> adjacent P (take n s @ drop n s)" by simp
  then show ?thesis unfolding adjacent_append by blast
qed

lemma adjacent_strip: "\<not> adjacent P s \<Longrightarrow> \<not> adjacent P (strip s)"
  by (simp add: strip_def adjacent_rev adjacent_dropWhile)

lemma set_strip: "set (strip s) \<subseteq> set s"
  by (auto simp: strip_def dest!: set_dropWhileD)

lemma strip_ends:
  "strip s = [] \<or> (\<not> is_space (hd (strip s)) \<and> \<not> is_space (last (strip s)))"
proof (cases "strip s = []")
  case False
  let ?d = "dropWhile is_space s"
  let ?r = "dropWhile is_space (rev ?d)"
  from False have r: "?r \<noteq> []" by (simp add: strip_def)
  then have 1: "\<not> is_space (hd ?r)" by (metis hd_dropWhile)
  have d: "?d \<noteq> []"
  proof
    assume "?d = []"
    then have "?r = []" by (simp only: rev.simps dropWhile.simps)
    with r show False by simp
  qed
  then have 2: "\<not> is_space (hd ?d)" by (metis hd_dropWhile)
  have "last ?r = last (rev ?d)"
    using r by (metis append_Nil2 last_appendR takeWhile_dropWhile_id)
  then have "last ?r = hd ?d" using d by (simp add: last_rev)
  with 1 2 r show ?thesis by (simp add: strip_def hd_rev last_rev)
qed simp



text \<open>Collapsing the runs of a character class.\<close>

lemma collapse_hd:
  "s \<noteq> [] \<Longrightarrow> \<not> P (hd s) \<Longrightarrow>
     sub (Rep (Suc 0) None (Cls P)) [T w] s \<noteq> [] \<and>
     hd (sub (Rep (Suc 0) None (Cls P)) [T w] s) = hd s"
  by (cases s) (simp_all add: sub_step_plus_cls)

lemma collapse_no_adjacent:
  "\<not> adjacent P (sub (Rep (Suc 0) None (Cls P)) [T [w]] s)"
proof (induction s rule: length_induct)
  case (1 s)
  let ?C = "sub (Rep (Suc 0) None (Cls P)) [T [w]]"
  show ?case
  proof (cases s)
    case Nil
    then show ?thesis by simp
  next
    case (Cons x xs)
    show ?thesis
    proof (cases "P x")
      case True
      let ?d = "dropWhile P xs"
      have "length ?d < length s" using Cons by (simp add: length_dropWhile_le le_imp_less_Suc)
      with 1 have ih: "\<not> adjacent P (?C ?d)" by blast
      have "?C ?d = [] \<or> \<not> P (hd (?C ?d))"
      proof (cases "?d = []")
        case True
        then have "?C ?d = []" by (simp only: sub.simps)
        then show ?thesis ..
      next
        case False
        then have "\<not> P (hd ?d)" by (metis hd_dropWhile)
        with False collapse_hd[of ?d P "[w]"] show ?thesis by simp
      qed
      with ih True Cons show ?thesis by (auto simp: sub_step_plus_cls adjacent_Cons)
    next
      case False
      have "length xs < length s" using Cons by simp
      with 1 have "\<not> adjacent P (?C xs)" by blast
      with False Cons show ?thesis by (auto simp: sub_step_plus_cls adjacent_Cons)
    qed
  qed
qed

lemma collapse_only_w:
  "c \<in> set (sub (Rep (Suc 0) None (Cls P)) [T [w]] s) \<Longrightarrow> P c \<Longrightarrow> c = w"
proof (induction s arbitrary: c rule: length_induct)
  case (1 s)
  let ?C = "sub (Rep (Suc 0) None (Cls P)) [T [w]]"
  show ?case
  proof (cases s)
    case Nil
    with 1 show ?thesis by simp
  next
    case (Cons x xs)
    have a: "length (dropWhile P xs) < length s" using Cons
      by (simp add: length_dropWhile_le le_imp_less_Suc)
    have b: "length xs < length s" using Cons by simp
    show ?thesis
    proof (cases "P x")
      case True
      with 1(2) Cons have "c = w \<or> c \<in> set (?C (dropWhile P xs))" by (auto simp: sub_step_plus_cls)
      with 1(1) a 1(3) show ?thesis by blast
    next
      case False
      with 1(2) Cons have "c = x \<or> c \<in> set (?C xs)" by (auto simp: sub_step_plus_cls)
      with 1(1) b 1(3) False show ?thesis by blast
    qed
  qed
qed

text \<open>Replacing a string by one character.\<close>

lemma replace_from_absent:
  "\<not> occurs old s \<Longrightarrow> replace_from old new s = s"
  by (induction s) auto

lemma replace_from_hd:
  "replace_from old [a] s \<noteq> [] \<Longrightarrow> hd (replace_from old [a] s) = a \<or> (s \<noteq> [] \<and> hd (replace_from old [a] s) = hd s)"
  by (cases s) (auto split: if_splits)

lemma replace_from_no_adjacent:
  "\<not> P a \<Longrightarrow> \<not> adjacent P s \<Longrightarrow> \<not> adjacent P (replace_from old [a] s)"
proof (induction old "[a]" s rule: replace_from.induct)
  case (1 old)
  then show ?case by simp
next
  case (2 old x xs)
  show ?case
  proof (cases "old \<noteq> [] \<and> startswith (x # xs) old")
    case True
    have "\<not> adjacent P (drop (length old) (x # xs))" using 2(3) by (rule adjacent_drop)
    with 2(1)[of "[a]" "drop (length old) (x # xs)"] True 2(2)
    have "\<not> adjacent P (replace_from old [a] (drop (length old) (x # xs)))" by simp
    with True 2(2) show ?thesis by (simp add: adjacent_Cons)
  next
    case False
    then have eq: "replace_from old [a] (x # xs) = x # replace_from old [a] xs" by auto
    have xs: "\<not> adjacent P xs" using 2(3) by (simp add: adjacent_Cons)
    with 2(1)[of "[x]" xs] False 2(2)
    have ih: "\<not> adjacent P (replace_from old [a] xs)" by simp
    have "\<not> (P x \<and> replace_from old [a] xs \<noteq> [] \<and> P (hd (replace_from old [a] xs)))"
      using replace_from_hd[of old a xs] 2(2) 2(3) by (auto simp: adjacent_Cons)
    with ih show ?thesis unfolding eq by (simp add: adjacent_Cons)
  qed
qed

lemma rep_numeral:
  "rep m lo (numeral k) c (x # xs) =
     rep_more m (lo - 1) (pred_numeral k) (length xs) (m c (x # xs))
       @ (if lo = 0 then [(c, x # xs)] else [])"
  by (simp add: numeral_eq_Suc)

lemmas regex_eval = sub_step_def u_def is_space_def is_decimal_def decimal_zeros_def strip_def
  rep_numeral fix_markdown_formatting_def clean_text_def replace_def collapse_newlines_def
  heading_before_def heading_after_def list_items_def quotes_def collapse_spaces_def

section \<open>The formatting fix-ups applied twice\<close>













lemma sub_step_rep_cls:
  assumes "0 < lo"
  shows "sub_step (Rep lo None (Cls P)) t x xs =
     (if lo \<le> length (takeWhile P (x # xs)) then (expand t [], dropWhile P (x # xs))
      else ([x], xs))"
proof (cases "lo \<le> length (takeWhile P (x # xs))")
  case True
  have m: "min (length (x # xs)) (length (takeWhile P (x # xs))) = length (takeWhile P (x # xs))"
    using length_takeWhile_le[of P "x # xs"] by (simp only: min_def split: if_splits) simp
  with True have "lo \<le> min (length (x # xs)) (length (takeWhile P (x # xs)))" by simp
  from rep_cls_head(1)[OF this, of "[]"] obtain ms where
    "rep (matches (Cls P)) lo (length (x # xs)) [] (x # xs)
       = ([], drop (min (length (x # xs)) (length (takeWhile P (x # xs)))) (x # xs)) # ms"
    by blast
  then have "matches (Rep lo None (Cls P)) [] (x # xs) = ([], dropWhile P (x # xs)) # ms"
    by (simp only: matches.simps option.case drop_takeWhile_length m)
  moreover have "P x" using True assms by (cases "P x") auto
  ultimately show ?thesis using True
    by (simp add: sub_step_def length_dropWhile_le)
next
  case False
  have "min (length (x # xs)) (length (takeWhile P (x # xs))) < lo" using False by simp
  from rep_cls_head(2)[OF this, of "[]"] show ?thesis using False
    by (simp add: sub_step_def)
qed

lemma sub_rep_cls:
  "0 < lo \<Longrightarrow> sub (Rep lo None (Cls P)) [T w] (x # xs) =
     (if lo \<le> length (takeWhile P (x # xs))
      then w @ sub (Rep lo None (Cls P)) [T w] (dropWhile P (x # xs))
      else x # sub (Rep lo None (Cls P)) [T w] xs)"
  by (simp add: sub_step_rep_cls)














lemma meta_step_lookup:
  "get (meta_step meta md) k =
     (if contributes k meta then get (attrs meta) (u ''content'') else get md k)"
  by (auto simp: meta_step_def contributes_def meta_name_def get_setitem Let_def
        split: option.splits)

lemma fold_meta_step_lookup:
  "get (fold meta_step ms md) k =
     (case filter (contributes k) ms of
        [] \<Rightarrow> get md k
      | t # ts \<Rightarrow> get (attrs (last (t # ts))) (u ''content''))"
proof (induction ms arbitrary: md)
  case Nil
  then show ?case by simp
next
  case (Cons m ms)
  show ?case
  proof (cases "filter (contributes k) ms")
    case Nil
    with Cons[of "meta_step m md"] show ?thesis by (simp add: meta_step_lookup)
  next
    case (Cons t ts)
    with Cons.IH[of "meta_step m md"] show ?thesis by simp
  qed
qed

lemma extract_metadata_lookup:
  "get (extract_metadata soup) k =
     (case filter (contributes k) (find_all soup (u ''meta'')) of
        [] \<Rightarrow> if k = u ''title'' then map_option (\<lambda>t. clean_text (get_text t)) (find soup (u ''title''))
              else None
      | t # ts \<Rightarrow> get (attrs (last (t # ts))) (u ''content''))"
  by (auto simp: extract_metadata_def fold_meta_step_lookup get_setitem Let_def
        split: list.splits option.splits) (simp_all add: get_def)

lemma contributes_not_title: "\<not> contributes (u ''title'') meta"
  by (auto simp: contributes_def meta_key_def u_def split: option.splits if_splits)

section \<open>The last \<open>meta\<close> tag wins\<close>

text \<open>
  C4, as the code has it: for every key but \<open>title\<close>, the extracted value is the
  \<open>content\<close> of the last \<open>meta\<close> tag, in document order, that contributes to the key,
  and the key is absent when no tag contributes. A tag contributes to the key exactly
  when its name, which is the \<open>name\<close> attribute when that is present and not empty
  and the \<open>property\<close> attribute otherwise, is present, not empty and recognized for
  the key, and its \<open>content\<close> attribute is present and not empty.
\<close>

theorem last_meta_tag_wins:
  "(k \<noteq> u ''title'' \<longrightarrow>
     get (extract_metadata soup) k =
       (case filter (contributes k) (find_all soup (u ''meta'')) of
          [] \<Rightarrow> None
        | t # ts \<Rightarrow> get (attrs (last (t # ts))) (u ''content''))) \<and>
   (contributes k meta \<longleftrightarrow>
     (\<exists>n c. (if truthy (get (attrs meta) (u ''name'')) then get (attrs meta) (u ''name'')
             else get (attrs meta) (u ''property'')) = Some n \<and>
            n \<noteq> [] \<and> meta_key n = Some k \<and>
            get (attrs meta) (u ''content'') = Some c \<and> c \<noteq> []))"
proof (intro conjI impI)
  assume "k \<noteq> u ''title''"
  then show "get (extract_metadata soup) k =
       (case filter (contributes k) (find_all soup (u ''meta'')) of
          [] \<Rightarrow> None
        | t # ts \<Rightarrow> get (attrs (last (t # ts))) (u ''content''))"
    by (simp add: extract_metadata_lookup)
next
  show "contributes k meta \<longleftrightarrow>
     (\<exists>n c. (if truthy (get (attrs meta) (u ''name'')) then get (attrs meta) (u ''name'')
             else get (attrs meta) (u ''property'')) = Some n \<and>
            n \<noteq> [] \<and> meta_key n = Some k \<and>
            get (attrs meta) (u ''content'') = Some c \<and> c \<noteq> [])"
    by (auto simp: contributes_def meta_name_def split: option.splits)
qed

theorem last_meta_tag_wins_witness:
  "u ''author'' \<noteq> u ''title'' \<and>
   filter (contributes (u ''author'')) (find_all authors_document (u ''meta'')) =
     [Tag (u ''meta'') [(u ''name'', u ''author''), (u ''content'', u ''Ann'')] [],
      Tag (u ''meta'') [(u ''property'', u ''og:author''), (u ''content'', u ''Bob'')] []] \<and>
   get (extract_metadata authors_document) (u ''author'') = Some (u ''Bob'')"
proof -
  have k: "u ''author'' \<noteq> u ''title''" by (simp add: u_def)
  have f: "filter (contributes (u ''author'')) (find_all authors_document (u ''meta'')) =
     [Tag (u ''meta'') [(u ''name'', u ''author''), (u ''content'', u ''Ann'')] [],
      Tag (u ''meta'') [(u ''property'', u ''og:author''), (u ''content'', u ''Bob'')] []]"
    by (simp add: authors_document_def document_def find_all_def contributes_def meta_name_def
          meta_key_def get_def truthy_def u_def)
  have "get (extract_metadata authors_document) (u ''author'') =
      get (attrs (Tag (u ''meta'') [(u ''property'', u ''og:author''), (u ''content'', u ''Bob'')] []))
        (u ''content'')"
    using last_meta_tag_wins[of "u ''author''" authors_document] k by (simp add: f)
  then have "get (extract_metadata authors_document) (u ''author'') = Some (u ''Bob'')"
    by (simp add: get_def u_def)
  with k f show ?thesis by simp
qed

text \<open>
  C4 as stated fails. Of the three tags that map to \<open>author\<close>, the last in document
  order is \<open><meta name="author" content="">\<close>, with a \<open>name\<close> and a \<open>content\<close>
  attribute, and the value extracted is \<open>Bob\<close>, not its content. Of the two tags that
  map to \<open>description\<close>, the last is
  \<open><meta name="twitter:description" property="og:description" content="B">\<close>, and
  the value extracted is \<open>A\<close>: its \<open>property\<close> is never read.
\<close>

theorem last_mapped_tag_passed_over:
  "filter (spec_maps_to (u ''author'')) (find_all authors_document (u ''meta'')) =
     [Tag (u ''meta'') [(u ''name'', u ''author''), (u ''content'', u ''Ann'')] [],
      Tag (u ''meta'') [(u ''property'', u ''og:author''), (u ''content'', u ''Bob'')] [],
      Tag (u ''meta'') [(u ''name'', u ''author''), (u ''content'', [])] []] \<and>
   get (attrs (last (filter (spec_maps_to (u ''author''))
                      (find_all authors_document (u ''meta''))))) (u ''content'') = Some [] \<and>
   get (extract_metadata authors_document) (u ''author'') = Some (u ''Bob'') \<and>
   filter (spec_maps_to (u ''description'')) (find_all descriptions_document (u ''meta'')) =
     [Tag (u ''meta'') [(u ''name'', u ''description''), (u ''content'', u ''A'')] [],
      Tag (u ''meta'') [(u ''name'', u ''twitter:description''),
                        (u ''property'', u ''og:description''), (u ''content'', u ''B'')] []] \<and>
   get (attrs (last (filter (spec_maps_to (u ''description''))
                      (find_all descriptions_document (u ''meta''))))) (u ''content'')
     = Some (u ''B'') \<and>
   get (extract_metadata descriptions_document) (u ''description'') = Some (u ''A'')"
proof -
  have fa: "filter (spec_maps_to (u ''author'')) (find_all authors_document (u ''meta'')) =
     [Tag (u ''meta'') [(u ''name'', u ''author''), (u ''content'', u ''Ann'')] [],
      Tag (u ''meta'') [(u ''property'', u ''og:author''), (u ''content'', u ''Bob'')] [],
      Tag (u ''meta'') [(u ''name'', u ''author''), (u ''content'', [])] []]"
    by (simp add: authors_document_def document_def find_all_def spec_maps_to_def
          meta_key_def get_def u_def)
  have fd: "filter (spec_maps_to (u ''description'')) (find_all descriptions_document (u ''meta'')) =
     [Tag (u ''meta'') [(u ''name'', u ''description''), (u ''content'', u ''A'')] [],
      Tag (u ''meta'') [(u ''name'', u ''twitter:description''),
                        (u ''property'', u ''og:description''), (u ''content'', u ''B'')] []]"
    by (simp add: descriptions_document_def document_def find_all_def spec_maps_to_def
          meta_key_def get_def u_def)
  have ca: "filter (contributes (u ''author'')) (find_all authors_document (u ''meta'')) =
     [Tag (u ''meta'') [(u ''name'', u ''author''), (u ''content'', u ''Ann'')] [],
      Tag (u ''meta'') [(u ''property'', u ''og:author''), (u ''content'', u ''Bob'')] []]"
    by (simp add: authors_document_def document_def find_all_def contributes_def meta_name_def
          meta_key_def get_def truthy_def u_def)
  have cd: "filter (contributes (u ''description'')) (find_all descriptions_document (u ''meta'')) =
     [Tag (u ''meta'') [(u ''name'', u ''description''), (u ''content'', u ''A'')] []]"
    by (simp add: descriptions_document_def document_def find_all_def contributes_def
          meta_name_def meta_key_def get_def truthy_def u_def)
  have ea: "get (extract_metadata authors_document) (u ''author'') = Some (u ''Bob'')"
    by (simp add: extract_metadata_lookup ca) (simp add: get_def u_def)
  have ed: "get (extract_metadata descriptions_document) (u ''description'') = Some (u ''A'')"
    by (simp add: extract_metadata_lookup cd) (simp add: get_def u_def)
  have la: "get (attrs (Tag (u ''meta'') [(u ''name'', u ''author''), (u ''content'', [])] []))
      (u ''content'') = Some []"
    by (simp add: get_def u_def)
  have ld: "get (attrs (Tag (u ''meta'') [(u ''name'', u ''twitter:description''),
      (u ''property'', u ''og:description''), (u ''content'', u ''B'')] [])) (u ''content'')
      = Some (u ''B'')"
    by (simp add: get_def u_def)
  show ?thesis
    unfolding fa fd using ea ed la ld by simp
qed

lemma clean_text_unfold:
  "clean_text x =
     replace (u ''&quot;'') (u ''\"'') (replace (u ''&gt;'') (u ''>'')
       (replace (u ''&lt;'') (u ''<'') (replace (u ''&amp;'') (u ''&'')
         (replace (u ''&nbsp;'') (u '' '')
            (strip (sub (Rep 1 None (Cls is_space)) [T (u '' '')] x))))))"
  by (simp add: clean_text_def Let_def replace_def strip_def u_def)

lemma clean_text_no_adjacent:
  assumes "\<not> occurs (u ''&nbsp;'') (strip (sub (Rep 1 None (Cls is_space)) [T (u '' '')] x))"
  shows "\<not> adjacent (\<lambda>c. c = 32) (clean_text x)"
proof -
  let ?w = "strip (sub (Rep (Suc 0) None (Cls is_space)) [T [32]] x)"
  have sp: "is_space 32" by (simp add: is_space_def)
  have 1: "\<not> adjacent is_space ?w"
    by (rule adjacent_strip) (rule collapse_no_adjacent)
  have "adjacent (\<lambda>c. c = 32) s \<Longrightarrow> adjacent is_space s" for s
    by (induction s) (auto simp: adjacent_Cons sp)
  with 1 have 2: "\<not> adjacent (\<lambda>c. c = 32) ?w" by blast
  have 3: "replace_from (u ''&nbsp;'') [32] ?w = ?w"
    using assms by (intro replace_from_absent) (simp add: u_def)
  have 4: "\<not> adjacent (\<lambda>c. c = 32) (replace_from old [a] s)"
    if "a \<noteq> 32" "\<not> adjacent (\<lambda>c. c = 32) s" for old a s
    using that by (intro replace_from_no_adjacent) simp_all
  show ?thesis
    unfolding clean_text_unfold
    using 2 3 by (simp add: replace_def u_def 4)
qed


lemma find_title_document:
  "find title_document (u ''title'') = Some (Tag (u ''title'') [] [NavigableString (u ''a &nbsp; b'')])"
  by (simp add: title_document_def document_def find_def find_all_def u_def)

section \<open>The title\<close>

text \<open>
  C5, as the code has it: the \<open>title\<close> value is \<open>_clean_text\<close> of the text of the
  first \<open>title\<close> tag, that is, the text with every run of whitespace collapsed to one
  space and both ends trimmed, and then the escapes \<open>&nbsp; &amp; &lt; &gt; &quot;\<close>
  replaced in this order. The normalized text, before the escapes are replaced, has
  no two neighbouring whitespace characters, no whitespace but single spaces and none
  at its ends. The result has no two neighbouring spaces when the normalized text does
  not contain \<open>&nbsp;\<close>.
\<close>

theorem title_cleaned:
  assumes "find soup (u ''title'') = Some t"
  shows "get (extract_metadata soup) (u ''title'') = Some (clean_text (get_text t)) \<and>
    clean_text (get_text t) =
      replace (u ''&quot;'') (u ''\"'') (replace (u ''&gt;'') (u ''>'')
        (replace (u ''&lt;'') (u ''<'') (replace (u ''&amp;'') (u ''&'')
          (replace (u ''&nbsp;'') (u '' '')
             (strip (sub (Rep 1 None (Cls is_space)) [T (u '' '')] (get_text t))))))) \<and>
    \<not> adjacent is_space (strip (sub (Rep 1 None (Cls is_space)) [T (u '' '')] (get_text t))) \<and>
    (\<forall>c \<in> set (strip (sub (Rep 1 None (Cls is_space)) [T (u '' '')] (get_text t))).
        is_space c \<longrightarrow> c = of_char CHR '' '') \<and>
    (strip (sub (Rep 1 None (Cls is_space)) [T (u '' '')] (get_text t)) = [] \<or>
       (\<not> is_space (hd (strip (sub (Rep 1 None (Cls is_space)) [T (u '' '')] (get_text t)))) \<and>
        \<not> is_space (last (strip (sub (Rep 1 None (Cls is_space)) [T (u '' '')] (get_text t)))))) \<and>
    (\<not> occurs (u ''&nbsp;'') (strip (sub (Rep 1 None (Cls is_space)) [T (u '' '')] (get_text t)))
       \<longrightarrow> \<not> adjacent (\<lambda>c. c = of_char CHR '' '') (clean_text (get_text t)))"
proof (intro conjI)
  let ?w = "strip (sub (Rep 1 None (Cls is_space)) [T (u '' '')] (get_text t))"
  have u32: "u '' '' = [32]" by (simp add: u_def)
  show "get (extract_metadata soup) (u ''title'') = Some (clean_text (get_text t))"
    using assms by (simp add: extract_metadata_lookup contributes_not_title)
  show "clean_text (get_text t) =
      replace (u ''&quot;'') (u ''\"'') (replace (u ''&gt;'') (u ''>'')
        (replace (u ''&lt;'') (u ''<'') (replace (u ''&amp;'') (u ''&'')
          (replace (u ''&nbsp;'') (u '' '') ?w))))"
    by (rule clean_text_unfold)
  show "\<not> adjacent is_space ?w"
    unfolding u32 One_nat_def by (rule adjacent_strip) (rule collapse_no_adjacent)
  show "\<forall>c \<in> set ?w. is_space c \<longrightarrow> c = of_char CHR '' ''"
    using set_strip collapse_only_w[of _ is_space 32 "get_text t"]
    unfolding u32 One_nat_def by fastforce
  show "?w = [] \<or> (\<not> is_space (hd ?w) \<and> \<not> is_space (last ?w))"
    by (rule strip_ends)
  show "\<not> occurs (u ''&nbsp;'') ?w \<longrightarrow> \<not> adjacent (\<lambda>c. c = of_char CHR '' '') (clean_text (get_text t))"
    using clean_text_no_adjacent[of "get_text t"] by simp
qed

theorem title_cleaned_witness:
  "find tidy_title_document (u ''title'') = Some tidy_title \<and>
   get_text tidy_title = u ''  Tom &amp;\<newline>   Jerry '' \<and>
   strip (sub (Rep 1 None (Cls is_space)) [T (u '' '')] (get_text tidy_title))
     = u ''Tom &amp; Jerry'' \<and>
   \<not> occurs (u ''&nbsp;'') (u ''Tom &amp; Jerry'') \<and>
   is_space (of_char CHR '' '') \<and> of_char CHR '' '' \<in> set (u ''Tom &amp; Jerry'') \<and>
   get (extract_metadata tidy_title_document) (u ''title'') = Some (u ''Tom & Jerry'') \<and>
   \<not> adjacent (\<lambda>c. c = of_char CHR '' '') (u ''Tom & Jerry'')"
proof -
  have f: "find tidy_title_document (u ''title'') = Some tidy_title"
    by (simp add: tidy_title_document_def tidy_title_def document_def find_def find_all_def u_def)
  have g: "get_text tidy_title = u ''  Tom &amp;\<newline>   Jerry ''"
    by (simp add: tidy_title_def string_containers_def u_def)
  have n: "strip (sub (Rep 1 None (Cls is_space)) [T (u '' '')] (u ''  Tom &amp;\<newline>   Jerry ''))
      = u ''Tom &amp; Jerry''"
    by (simp add: regex_eval)
  have o: "\<not> occurs (u ''&nbsp;'') (u ''Tom &amp; Jerry'')"
    by (simp add: u_def)
  have c: "clean_text (u ''  Tom &amp;\<newline>   Jerry '') = u ''Tom & Jerry''"
    by (simp add: regex_eval)
  have s: "is_space (of_char CHR '' '')" "of_char CHR '' '' \<in> set (u ''Tom &amp; Jerry'')"
    by (simp_all add: is_space_def u_def)
  note tc = title_cleaned[OF f]
  from tc have 1: "get (extract_metadata tidy_title_document) (u ''title'')
      = Some (clean_text (get_text tidy_title))"
    by (rule conjunct1)
  from tc have 2: "\<not> occurs (u ''&nbsp;'')
        (strip (sub (Rep 1 None (Cls is_space)) [T (u '' '')] (get_text tidy_title)))
      \<longrightarrow> \<not> adjacent (\<lambda>c. c = of_char CHR '' '') (clean_text (get_text tidy_title))"
    by (elim conjE)
  from 2 o have 3: "\<not> adjacent (\<lambda>c. c = of_char CHR '' '') (u ''Tom & Jerry'')"
    unfolding g n c by (rule mp)
  from 1 have 4: "get (extract_metadata tidy_title_document) (u ''title'') = Some (u ''Tom & Jerry'')"
    unfolding g c .
  show ?thesis
    unfolding g n using f o s 3 4 by (intro conjI) (rule refl | assumption)+
qed

text \<open>
  C5 as stated fails: each \<open>&nbsp;\<close> becomes a space after the whitespace has been
  collapsed, so the title \<open>a &nbsp; b\<close> comes out with three neighbouring spaces.
\<close>

theorem title_adjacent_spaces:
  "get (extract_metadata title_document) (u ''title'') = Some (u ''a   b'') \<and>
   adjacent (\<lambda>c. c = of_char CHR '' '') (u ''a   b'')"
proof -
  have c: "clean_text (u ''a &nbsp; b'') = u ''a   b''"
    by (simp add: regex_eval)
  have m: "find_all title_document (u ''meta'') = []"
    by (simp add: title_document_def document_def find_all_def u_def)
  have "get (extract_metadata title_document) (u ''title'') = Some (u ''a   b'')"
    by (simp add: extract_metadata_def find_title_document m c get_setitem)
  moreover have "adjacent (\<lambda>c. c = of_char CHR '' '') (u ''a   b'')"
    by (simp add: u_def)
  ultimately show ?thesis ..
qed

section \<open>The content selection\<close>

lemma selects_decompose_all: "selects sel (decompose_all P d) = selects sel d"
  by (cases d; cases sel) simp_all

lemma descendants_decompose_all:
  "d' \<in> set (descendants (decompose_all P t)) \<Longrightarrow>
     \<exists>d \<in> set (descendants t). \<not> P d \<and> d' = decompose_all P d"
proof (induction t arbitrary: d')
  case (Tag n a cs)
  from Tag.prems obtain c where c: "c \<in> set cs" "\<not> P c"
    and d': "d' = decompose_all P c \<or> d' \<in> set (descendants (decompose_all P c))"
    by auto
  from d' show ?case
  proof
    assume "d' = decompose_all P c"
    with c show ?thesis by auto
  next
    assume "d' \<in> set (descendants (decompose_all P c))"
    from Tag.IH[OF c(1) this] c(1) show ?thesis by auto
  qed
qed simp_all

lemma decompose_all_clean:
  assumes "\<forall>s \<in> S. \<forall>d \<in> set (descendants t). \<not> selects s d"
  shows "\<forall>s \<in> insert sel S. \<forall>d \<in> set (descendants (decompose_all (selects sel) t)). \<not> selects s d"
proof (intro ballI)
  fix s d' assume s: "s \<in> insert sel S" and "d' \<in> set (descendants (decompose_all (selects sel) t))"
  then obtain d where d: "d \<in> set (descendants t)" "\<not> selects sel d" "d' = decompose_all (selects sel) d"
    using descendants_decompose_all by blast
  have "\<not> selects s d" using s d(1,2) assms by auto
  then show "\<not> selects s d'" by (simp add: d(3) selects_decompose_all)
qed

lemma fold_decompose_clean:
  "\<forall>s \<in> S. \<forall>d \<in> set (descendants t). \<not> selects s d \<Longrightarrow>
   \<forall>s \<in> S \<union> set sels. \<forall>d \<in> set (descendants (fold (\<lambda>sel t. decompose_all (selects sel) t) sels t)).
      \<not> selects s d"
proof (induction sels arbitrary: S t)
  case Nil
  then show ?case by simp
next
  case (Cons sel sels)
  from decompose_all_clean[OF Cons.prems, of sel]
  have "\<forall>s\<in>insert sel S. \<forall>d\<in>set (descendants (decompose_all (selects sel) t)). \<not> selects s d" .
  from Cons.IH[OF this] show ?case by simp
qed

lemma first_selected_find:
  "(case first_selected t sels of Some e \<Rightarrow> e | None \<Rightarrow> other) =
     (case List.find (\<lambda>sel. select_one t sel \<noteq> None) sels of
        Some sel \<Rightarrow> hd (filter (selects sel) (descendants t))
      | None \<Rightarrow> other)"
  by (induction sels) (auto simp: select_one_def select_def split: option.splits list.splits)

lemma find_body:
  "(case find t nm of Some b \<Rightarrow> b | None \<Rightarrow> other) =
     (case filter (is_named nm) (descendants t) of [] \<Rightarrow> other | b # bs \<Rightarrow> b)"
  by (simp add: find_def find_all_def split: list.splits)

text \<open>
  C8: the content is chosen in the soup from which the unwanted elements have been
  removed (no descendant of it matches an unwanted selector). It is the first element,
  in document order, that the first matching selector of the list \<open>main\<close>,
  \<open>article\<close>, \<open>[role="main"]\<close>, \<open>.post-content\<close>, \<open>.article-content\<close>,
  \<open>.entry-content\<close>, \<open>.content\<close>, \<open>.main-content\<close> matches; when no selector matches
  it is the first \<open>body\<close>, and the soup itself when there is no \<open>body\<close>.
\<close>

theorem main_content_selection:
  "extract_main_content soup =
     (remove_unwanted soup,
      case List.find (\<lambda>sel. select_one (remove_unwanted soup) sel \<noteq> None)
             [ByTag (u ''main''), ByTag (u ''article''), AttrEquals (u ''role'') (u ''main''),
              ByClass (u ''post-content''), ByClass (u ''article-content''),
              ByClass (u ''entry-content''), ByClass (u ''content''),
              ByClass (u ''main-content'')] of
        Some sel \<Rightarrow> hd (filter (selects sel) (descendants (remove_unwanted soup)))
      | None \<Rightarrow>
          (case filter (is_named (u ''body'')) (descendants (remove_unwanted soup)) of
             [] \<Rightarrow> remove_unwanted soup
           | body # bs \<Rightarrow> body))
   \<and> (\<forall>sel \<in> set unwanted_selectors. \<forall>d \<in> set (descendants (remove_unwanted soup)).
         \<not> selects sel d)"
proof
  show "extract_main_content soup =
     (remove_unwanted soup,
      case List.find (\<lambda>sel. select_one (remove_unwanted soup) sel \<noteq> None)
             [ByTag (u ''main''), ByTag (u ''article''), AttrEquals (u ''role'') (u ''main''),
              ByClass (u ''post-content''), ByClass (u ''article-content''),
              ByClass (u ''entry-content''), ByClass (u ''content''),
              ByClass (u ''main-content'')] of
        Some sel \<Rightarrow> hd (filter (selects sel) (descendants (remove_unwanted soup)))
      | None \<Rightarrow>
          (case filter (is_named (u ''body'')) (descendants (remove_unwanted soup)) of
             [] \<Rightarrow> remove_unwanted soup
           | body # bs \<Rightarrow> body))"
    unfolding extract_main_content_def Let_def first_selected_find find_body
      main_content_selectors_def ..
  show "\<forall>sel \<in> set unwanted_selectors. \<forall>d \<in> set (descendants (remove_unwanted soup)).
         \<not> selects sel d"
    using fold_decompose_clean[of "{}" soup unwanted_selectors]
    by (simp add: remove_unwanted_def)
qed

theorem main_content_selection_witness:
  "extract_main_content article_document =
     (document [Tag (u ''html'') []
       [Tag (u ''body'') []
          [Tag (u ''div'') [(u ''class'', u ''wide content'')] [NavigableString (u ''intro'')],
           Tag (u ''article'') [] [NavigableString (u ''story'')]]]],
      Tag (u ''article'') [] [NavigableString (u ''story'')]) \<and>
   extract_main_content plain_document =
     (plain_document, Tag (u ''body'') [] [Tag (u ''p'') [] [NavigableString (u ''hello'')]])"
proof -
  have a: "remove_unwanted article_document =
     document [Tag (u ''html'') []
       [Tag (u ''body'') []
          [Tag (u ''div'') [(u ''class'', u ''wide content'')] [NavigableString (u ''intro'')],
           Tag (u ''article'') [] [NavigableString (u ''story'')]]]]"
    by (simp add: remove_unwanted_def unwanted_selectors_def article_document_def document_def
          class_list_def attr_text_def get_def is_space_def u_def)
  have p: "remove_unwanted plain_document = plain_document"
    by (simp add: remove_unwanted_def unwanted_selectors_def plain_document_def document_def
          class_list_def attr_text_def get_def is_space_def u_def)
  have "extract_main_content article_document =
     (remove_unwanted article_document, Tag (u ''article'') [] [NavigableString (u ''story'')])"
    using main_content_selection[of article_document] unfolding a
    by (simp add: document_def select_one_def select_def class_list_def attr_text_def get_def
          is_space_def u_def)
  moreover have "extract_main_content plain_document =
     (remove_unwanted plain_document,
      Tag (u ''body'') [] [Tag (u ''p'') [] [NavigableString (u ''hello'')]])"
    using main_content_selection[of plain_document] unfolding p
    by (simp add: plain_document_def document_def select_one_def select_def class_list_def
          attr_text_def get_def is_space_def u_def)
  ultimately show ?thesis by (simp add: a p)
qed

section \<open>The loader\<close>

text \<open>
  C9: when the file is read and its bytes are valid UTF-8, the content is their UTF-8
  decoding and no second attempt is made; when they are not, the file is read once
  more and decoded as latin-1, which decodes every byte sequence, so that a failure to
  decode never leaves the loader; an I/O error of either attempt leaves it as it is,
  and \<open>main\<close> exits with status 1.
\<close>

theorem loader_decoding:
  "(first = Inr bs \<and> utf8_decode bs = Some s \<longrightarrow>
      read_html first second = Inr (universal_newlines s)) \<and>
   (first = Inr bs \<and> utf8_decode bs = None \<longrightarrow>
      read_html first second =
        (case second of
           Inl e \<Rightarrow> Inl (OSError e)
         | Inr bs' \<Rightarrow> Inr (universal_newlines (latin1_decode bs')))) \<and>
   (first = Inl e \<longrightarrow> read_html first second = Inl (OSError e)) \<and>
   read_html first second \<noteq> Inl UnicodeDecodeError \<and>
   (\<forall>x. read_html first second = Inl x \<longrightarrow> exit_status (read_html first second) = 1)"
  by (auto simp: read_html_def read_text_def exit_status_def split: sum.splits option.splits exn.splits)

theorem loader_decoding_witness:
  "utf8_decode [0x63, 0x61, 0x66, 0xC3, 0xA9, 0x0D, 0x0A] = Some [0x63, 0x61, 0x66, 0xE9, 0x0D, 0x0A] \<and>
   read_html (Inr [0x63, 0x61, 0x66, 0xC3, 0xA9, 0x0D, 0x0A]) (Inl (u ''Permission denied''))
     = Inr [0x63, 0x61, 0x66, 0xE9, 0x0A] \<and>
   utf8_decode [0x63, 0x61, 0x66, 0xE9, 0x0D, 0x0A] = None \<and>
   read_html (Inr [0x63, 0x61, 0x66, 0xE9, 0x0D, 0x0A]) (Inr [0x63, 0x61, 0x66, 0xE9, 0x0D, 0x0A])
     = Inr [0x63, 0x61, 0x66, 0xE9, 0x0A] \<and>
   read_html (Inl (u ''Permission denied'')) (Inr [0x63])
     = Inl (OSError (u ''Permission denied'')) \<and>
   exit_status (read_html (Inl (u ''Permission denied'')) (Inr [0x63])) = 1"
proof -
  let ?utf = "[0x63, 0x61, 0x66, 0xC3, 0xA9, 0x0D, 0x0A] :: bytes"
  let ?lat = "[0x63, 0x61, 0x66, 0xE9, 0x0D, 0x0A] :: bytes"
  have 1: "utf8_decode ?utf = Some [0x63, 0x61, 0x66, 0xE9, 0x0D, 0x0A]"
    by (simp add: cont_def low6_def)
  have 2: "utf8_decode ?lat = None"
    by (simp add: cont_def low6_def)
  from loader_decoding[of "Inr ?utf" ?utf "[0x63, 0x61, 0x66, 0xE9, 0x0D, 0x0A]"
      "Inl (u ''Permission denied'')" "u ''Permission denied''"] 1
  have a: "read_html (Inr ?utf) (Inl (u ''Permission denied'')) = Inr [0x63, 0x61, 0x66, 0xE9, 0x0A]"
    by simp
  from loader_decoding[of "Inr ?lat" ?lat "[]" "Inr ?lat" "[]"] 2
  have b: "read_html (Inr ?lat) (Inr ?lat) = Inr [0x63, 0x61, 0x66, 0xE9, 0x0A]"
    by (simp add: latin1_decode_def)
  from loader_decoding[of "Inl (u ''Permission denied'')" "[]" "[]" "Inr [0x63]"
      "u ''Permission denied''"]
  have c: "read_html (Inl (u ''Permission denied'')) (Inr [0x63])
      = Inl (OSError (u ''Permission denied''))"
    and d: "exit_status (read_html (Inl (u ''Permission denied'')) (Inr [0x63])) = 1"
    by simp_all
  from 1 2 a b c d show ?thesis by simp
qed

end
